theory Spec2Isabelle
  imports Main "HOL-Library.AList"
begin

section \<open>Python values: errors, indexing, truthiness\<close>

text \<open>
  The comparison engine of \<^verbatim>\<open>services/comparison.py\<close> is embedded function by
  function. Every \<^verbatim>\<open>raise\<close> of the source is a value \<open>Inl e\<close>; a \<^verbatim>\<open>return\<close> is
  \<open>Inr v\<close>. Python's \<^verbatim>\<open>None\<close> is \<open>None\<close> of an option type.
\<close>

text \<open>
  \<open>OSError\<close> stands for the builtin \<^verbatim>\<open>OSError\<close> and its subclasses, which an
  \<^verbatim>\<open>except OSError\<close> clause catches. \<open>RedisConnectionError\<close> is
  \<^verbatim>\<open>redis.exceptions.ConnectionError\<close>, the exception with which the redis client
  reports that the server cannot be reached; it derives from \<^verbatim>\<open>Exception\<close> through
  \<^verbatim>\<open>RedisError\<close> and is no \<^verbatim>\<open>OSError\<close>.
\<close>

datatype error = IndexError | ValueError | TypeError | OSError | JSONDecodeError
  | RedisConnectionError

definition rbind :: "error + 'a \<Rightarrow> ('a \<Rightarrow> error + 'b) \<Rightarrow> error + 'b" where
  "rbind m f = (case m of Inl e \<Rightarrow> Inl e | Inr x \<Rightarrow> f x)"

text \<open>
  \<^verbatim>\<open>xs[i]\<close> on a Python list: an index below zero counts from the end of the list,
  and an index outside \<open>-len \<dots> len - 1\<close> raises IndexError.
\<close>

definition py_index :: "'a list \<Rightarrow> int \<Rightarrow> error + 'a" where
  "py_index xs i =
     (if 0 \<le> i \<and> i < int (length xs) then Inr (xs ! nat i)
      else if i < 0 \<and> 0 \<le> int (length xs) + i then Inr (xs ! nat (int (length xs) + i))
      else Inl IndexError)"

text \<open>
  A cell of a hunk header. The provider returns the header as strings, tests build it
  from integers: \<open>HInt n\<close> is the integer \<open>n\<close>, \<open>HStr n\<close> the decimal string of
  \<open>n\<close> and \<open>HEmpty\<close> the empty string. \<^verbatim>\<open>int("")\<close> raises ValueError; the
  empty string and the integer 0 are falsy, every other cell (the string "0" too) is
  truthy.
\<close>

datatype hval = HInt int | HStr int | HEmpty

fun py_int :: "hval \<Rightarrow> error + int" where
  "py_int (HInt n) = Inr n"
| "py_int (HStr n) = Inr n"
| "py_int HEmpty = Inl ValueError"

fun truthy :: "hval \<Rightarrow> bool" where
  "truthy (HInt n) = (n \<noteq> 0)"
| "truthy (HStr n) = True"
| "truthy HEmpty = False"

text \<open>\<^verbatim>\<open>int(h or 1)\<close>\<close>

definition int_or_1 :: "hval \<Rightarrow> error + int" where
  "int_or_1 h = (if truthy h then py_int h else Inr 1)"

section \<open>Diff-line prefixes\<close>

text \<open>\<^verbatim>\<open>line_value and line_value[0] == "+"\<close>, read as a truth value.\<close>

definition is_added :: "string option \<Rightarrow> bool" where
  "is_added line_value =
     (case line_value of None \<Rightarrow> False | Some [] \<Rightarrow> False | Some (c # _) \<Rightarrow> c = CHR ''+'')"

definition is_removed :: "string option \<Rightarrow> bool" where
  "is_removed line_value =
     (case line_value of None \<Rightarrow> False | Some [] \<Rightarrow> False | Some (c # _) \<Rightarrow> c = CHR ''-'')"

section \<open>FileComparisonTraverseManager\<close>

record diff_segment =
  header :: "hval list"
  lines :: "string list"

record traverse_manager =
  head_file_eof :: int
  base_file_eof :: int
  segments :: "diff_segment list"
  src :: "string list"
  base_ln :: int
  head_ln :: int

text \<open>\<^verbatim>\<open>int(self.segments[0]["header"][k])\<close>\<close>

definition header_int :: "diff_segment \<Rightarrow> int \<Rightarrow> error + int" where
  "header_int s k = rbind (py_index (header s) k) py_int"

text \<open>
  \<^verbatim>\<open>__init__\<close>: with segments, the cursors start at \<^verbatim>\<open>min(1, int(header[0]))\<close> and
  \<^verbatim>\<open>min(1, int(header[2]))\<close> of the first segment; without, both start at 1.
\<close>

definition tm_init :: "int \<Rightarrow> int \<Rightarrow> diff_segment list \<Rightarrow> string list \<Rightarrow> error + traverse_manager" where
  "tm_init heof beof segs source =
     (case segs of
        [] \<Rightarrow> Inr \<lparr>head_file_eof = heof, base_file_eof = beof, segments = segs,
                   src = source, base_ln = 1, head_ln = 1\<rparr>
      | s # _ \<Rightarrow>
          rbind (header_int s 0) (\<lambda>b.
          rbind (header_int s 2) (\<lambda>h.
            Inr \<lparr>head_file_eof = heof, base_file_eof = beof, segments = segs,
                 src = source, base_ln = min 1 b, head_ln = min 1 h\<rparr>)))"

definition traverse_finished :: "traverse_manager \<Rightarrow> bool" where
  "traverse_finished tm =
     (if segments tm \<noteq> [] then False
      else if src tm \<noteq> [] then head_ln tm > int (length (src tm))
      else head_ln tm \<ge> head_file_eof tm \<and> base_ln tm \<ge> base_file_eof tm)"

text \<open>
  The chained comparison \<^verbatim>\<open>int(h[i]) <= ln < int(h[i]) + int(h[j] or 1)\<close>: the right
  operand is only evaluated when the left comparison holds.
\<close>

definition within_offset :: "diff_segment \<Rightarrow> int \<Rightarrow> int \<Rightarrow> int \<Rightarrow> error + bool" where
  "within_offset s i j ln =
     rbind (header_int s i) (\<lambda>start.
       if start \<le> ln then
         rbind (header_int s i) (\<lambda>start'.
         rbind (rbind (py_index (header s) j) int_or_1) (\<lambda>len.
           Inr (ln < start' + len)))
       else Inr False)"

definition traversing_diff :: "traverse_manager \<Rightarrow> error + bool" where
  "traversing_diff tm =
     (case segments tm of
        [] \<Rightarrow> Inr False
      | s # _ \<Rightarrow>
          rbind (within_offset s 0 1 (base_ln tm)) (\<lambda>base_ln_within_offset.
          rbind (within_offset s 2 3 (head_ln tm)) (\<lambda>head_ln_within_offset.
            Inr (base_ln_within_offset \<or> head_ln_within_offset))))"

text \<open>
  \<^verbatim>\<open>pop_line\<close> returns the line value and the manager, whose front segment has lost
  its first line when the traversal is inside the diff. Popping from a segment without
  lines raises IndexError, and so does reading \<^verbatim>\<open>src\<close> out of range.
\<close>

definition pop_line :: "traverse_manager \<Rightarrow> error + (string option \<times> traverse_manager)" where
  "pop_line tm =
     rbind (traversing_diff tm) (\<lambda>in_diff.
       if in_diff then
         (case segments tm of
            [] \<Rightarrow> Inl IndexError
          | s # ss \<Rightarrow>
              (case lines s of
                 [] \<Rightarrow> Inl IndexError
               | l # ls \<Rightarrow> Inr (Some l, tm\<lparr>segments := s\<lparr>lines := ls\<rparr> # ss\<rparr>)))
       else if src tm \<noteq> [] then
         rbind (py_index (src tm) (head_ln tm - 1)) (\<lambda>l. Inr (Some l, tm))
       else Inr (None, tm))"

text \<open>
  A visitor is called with \<^verbatim>\<open>(base_ln, head_ln, value, is_diff)\<close> and updates its own
  state \<open>'v\<close>, or raises.
\<close>

type_synonym call = "int option \<times> int option \<times> string option \<times> bool"

type_synonym 'v visitor = "call \<Rightarrow> 'v \<Rightarrow> error + 'v"

text \<open>The \<^verbatim>\<open>for visitor in visitors\<close> loop of one iteration.\<close>

fun run_visitors :: "'v visitor list \<Rightarrow> traverse_manager \<Rightarrow> string option \<Rightarrow> 'v \<Rightarrow> error + 'v" where
  "run_visitors [] tm line_value v = Inr v"
| "run_visitors (visitor # rest) tm line_value v =
     rbind (traversing_diff tm) (\<lambda>in_diff.
     rbind (visitor (if is_added line_value then None else Some (base_ln tm),
                     if is_removed line_value then None else Some (head_ln tm),
                     line_value, in_diff) v) (\<lambda>v'.
       run_visitors rest tm line_value v'))"

definition advance :: "string option \<Rightarrow> traverse_manager \<Rightarrow> traverse_manager" where
  "advance line_value tm =
     (if is_added line_value then tm\<lparr>head_ln := head_ln tm + 1\<rparr>
      else if is_removed line_value then tm\<lparr>base_ln := base_ln tm + 1\<rparr>
      else tm\<lparr>head_ln := head_ln tm + 1, base_ln := base_ln tm + 1\<rparr>)"

definition drop_exhausted :: "traverse_manager \<Rightarrow> traverse_manager" where
  "drop_exhausted tm =
     (case segments tm of
        [] \<Rightarrow> tm
      | s # ss \<Rightarrow> if lines s = [] then tm\<lparr>segments := ss\<rparr> else tm)"

text \<open>The body of the \<^verbatim>\<open>while\<close> loop of \<^verbatim>\<open>apply\<close>.\<close>

definition apply_step :: "'v visitor list \<Rightarrow> traverse_manager \<Rightarrow> 'v \<Rightarrow> error + (traverse_manager \<times> 'v)" where
  "apply_step visitors tm v =
     rbind (pop_line tm) (\<lambda>(line_value, tm1).
     rbind (run_visitors visitors tm1 line_value v) (\<lambda>v'.
       Inr (drop_exhausted (advance line_value tm1), v')))"

text \<open>
  \<^verbatim>\<open>apply\<close>: the loop may run forever, so it is given fuel, one unit per iteration.
  \<open>None\<close> means the fuel ran out before \<^verbatim>\<open>traverse_finished\<close> held;
  \<open>Some (Inl e)\<close> that the traversal raised \<open>e\<close>; \<open>Some (Inr (tm, v))\<close> that it
  returned with the manager \<open>tm\<close> and the visitors' state \<open>v\<close>.
\<close>

fun tm_apply :: "nat \<Rightarrow> 'v visitor list \<Rightarrow> traverse_manager \<Rightarrow> 'v \<Rightarrow> (error + (traverse_manager \<times> 'v)) option" where
  "tm_apply 0 visitors tm v = (if traverse_finished tm then Some (Inr (tm, v)) else None)"
| "tm_apply (Suc n) visitors tm v =
     (if traverse_finished tm then Some (Inr (tm, v))
      else (case apply_step visitors tm v of
              Inl e \<Rightarrow> Some (Inl e)
            | Inr (tm', v') \<Rightarrow> tm_apply n visitors tm' v'))"

section \<open>Report files and coverage classes\<close>

text \<open>
  A report file (class \<^verbatim>\<open>ReportFile\<close> of the reports library) holds the array
  \<^verbatim>\<open>_lines\<close> and the attribute \<^verbatim>\<open>eof\<close>. A cell of the array is \<^verbatim>\<open>None\<close>, a line
  array \<^verbatim>\<open>[coverage, ...]\<close> whose entries have the type \<open>'c\<close>, or a string that
  holds the JSON text of such an array (the old format).
\<close>

datatype 'c cell = CNone | CList "'c list" | CStr string

record 'c report_file =
  rf_lines :: "'c cell list"
  eof :: int

text \<open>
  Modelled from the spec: the coverage classes of \<^verbatim>\<open>shared.utils.merge.LineType\<close>,
  which is not part of the sources; the spec names hit, miss and partial, the keys of
  \<^verbatim>\<open>coverage_type_map\<close>. The function \<^verbatim>\<open>line_type\<close> of the same library is a parameter
  \<open>lt\<close> of every definition that calls it, and \<^verbatim>\<open>json.loads\<close> is the parameter
  \<open>loads\<close>.
\<close>

datatype LineType = hit | miss | partial

fun coverage_type_map :: "LineType \<Rightarrow> string" where
  "coverage_type_map hit = ''hits''"
| "coverage_type_map miss = ''misses''"
| "coverage_type_map partial = ''partials''"

section \<open>FileComparisonVisitor\<close>

text \<open>
  \<^verbatim>\<open>_get_line\<close>: the IndexError of the array read is caught; a falsy cell gives
  \<^verbatim>\<open>None\<close>, a list cell itself, a string cell what \<^verbatim>\<open>json.loads\<close> makes of it.
\<close>

definition get_line :: "(string \<Rightarrow> error + 'c list) \<Rightarrow> 'c report_file option \<Rightarrow> int option \<Rightarrow> error + 'c list option" where
  "get_line loads report_file ln =
     (case report_file of
        None \<Rightarrow> Inr None
      | Some rf \<Rightarrow>
          (case ln of
             None \<Rightarrow> Inr None
           | Some n \<Rightarrow>
               (case py_index (rf_lines rf) (n - 1) of
                  Inl e \<Rightarrow> (if e = IndexError then Inr None else Inl e)
                | Inr CNone \<Rightarrow> Inr None
                | Inr (CList l) \<Rightarrow> Inr (if l = [] then None else Some l)
                | Inr (CStr s) \<Rightarrow>
                    (if s = [] then Inr None else rbind (loads s) (\<lambda>l. Inr (Some l))))))"

definition get_lines :: "(string \<Rightarrow> error + 'c list) \<Rightarrow> 'c report_file option \<Rightarrow> 'c report_file option \<Rightarrow>
    int option \<Rightarrow> int option \<Rightarrow> error + ('c list option \<times> 'c list option)" where
  "get_lines loads base_file head_file b h =
     rbind (get_line loads base_file b) (\<lambda>base_line.
     rbind (get_line loads head_file h) (\<lambda>head_line.
       Inr (base_line, head_line)))"

section \<open>LineComparison and CreateLineComparisonVisitor\<close>

record 'c LineComparison =
  base_line :: "'c list option"
  head_line :: "'c list option"
  lc_head_ln :: "int option"
  lc_base_ln :: "int option"
  lc_value :: string
  is_diff :: bool
  added :: bool
  removed :: bool

text \<open>\<^verbatim>\<open>LineComparison.__init__\<close>\<close>

definition new_LineComparison :: "'c list option \<Rightarrow> 'c list option \<Rightarrow> int option \<Rightarrow> int option \<Rightarrow> string \<Rightarrow> bool \<Rightarrow> 'c LineComparison" where
  "new_LineComparison bl hl b h v d =
     \<lparr>base_line = bl, head_line = hl, lc_head_ln = h, lc_base_ln = b, lc_value = v,
      is_diff = d, added = is_added (Some v), removed = is_removed (Some v)\<rparr>"

text \<open>The property \<^verbatim>\<open>number\<close>, as the pair (base, head).\<close>

definition number :: "'c LineComparison \<Rightarrow> int option \<times> int option" where
  "number lc =
     (if added lc then None else lc_base_ln lc, if removed lc then None else lc_head_ln lc)"

text \<open>
  The property \<^verbatim>\<open>coverage\<close>, as the pair (base, head): \<^verbatim>\<open>None\<close> on a side that is
  added (removed) or whose line is \<^verbatim>\<open>None\<close> or empty, else the class of the line's first
  entry.
\<close>

definition side_coverage :: "('c \<Rightarrow> LineType) \<Rightarrow> bool \<Rightarrow> 'c list option \<Rightarrow> LineType option" where
  "side_coverage lt absent line =
     (case line of
        None \<Rightarrow> None
      | Some [] \<Rightarrow> None
      | Some (c # _) \<Rightarrow> if absent then None else Some (lt c))"

definition coverage :: "('c \<Rightarrow> LineType) \<Rightarrow> 'c LineComparison \<Rightarrow> LineType option \<times> LineType option" where
  "coverage lt lc =
     (side_coverage lt (added lc) (base_line lc), side_coverage lt (removed lc) (head_line lc))"

text \<open>\<^verbatim>\<open>CreateLineComparisonVisitor.__call__\<close>; the state is \<^verbatim>\<open>self.lines\<close>.\<close>

definition create_line_comparison_visitor :: "(string \<Rightarrow> error + 'c list) \<Rightarrow> 'c report_file option \<Rightarrow> 'c report_file option \<Rightarrow>
    'c LineComparison list visitor" where
  "create_line_comparison_visitor loads base_file head_file c ls =
     (case c of (b, h, val, d) \<Rightarrow>
        (case val of
           None \<Rightarrow> Inr ls
         | Some v \<Rightarrow>
             rbind (get_lines loads base_file head_file b h) (\<lambda>(bl, hl).
               Inr (ls @ [new_LineComparison bl hl b h v d]))))"

section \<open>CreateChangeSummaryVisitor\<close>

text \<open>
  A \<^verbatim>\<open>Counter\<close> is a dictionary in insertion order whose missing keys read as 0;
  \<^verbatim>\<open>c[k] += d\<close> stores \<open>c[k] + d\<close> under \<open>k\<close>, in place when the key is there and
  at the end when it is new.
\<close>

type_synonym counter = "(string \<times> int) list"

definition counter_get :: "counter \<Rightarrow> string \<Rightarrow> int" where
  "counter_get c k = (case map_of c k of None \<Rightarrow> 0 | Some n \<Rightarrow> n)"

definition counter_add :: "counter \<Rightarrow> string \<Rightarrow> int \<Rightarrow> counter" where
  "counter_add c k d = AList.update k (counter_get c k + d) c"

definition update_summary :: "('c \<Rightarrow> LineType) \<Rightarrow> counter \<Rightarrow> 'c list \<Rightarrow> 'c list \<Rightarrow> error + counter" where
  "update_summary lt summary bl hl =
     rbind (py_index bl 0) (\<lambda>bc.
     rbind (py_index hl 0) (\<lambda>hc.
       Inr (counter_add (counter_add summary (coverage_type_map (lt bc)) (- 1))
              (coverage_type_map (lt hc)) 1)))"

text \<open>\<^verbatim>\<open>value and value[0] in ["+", "-"]\<close>\<close>

definition diff_prefixed :: "string option \<Rightarrow> bool" where
  "diff_prefixed val =
     (case val of
        None \<Rightarrow> False
      | Some [] \<Rightarrow> False
      | Some (c # _) \<Rightarrow> c = CHR ''+'' \<or> c = CHR ''-'')"

text \<open>\<^verbatim>\<open>CreateChangeSummaryVisitor.__call__\<close>; the state is \<^verbatim>\<open>self.summary\<close>.\<close>

definition create_change_summary_visitor :: "('c \<Rightarrow> LineType) \<Rightarrow> (string \<Rightarrow> error + 'c list) \<Rightarrow>
    'c report_file option \<Rightarrow> 'c report_file option \<Rightarrow> counter visitor" where
  "create_change_summary_visitor lt loads base_file head_file c summary =
     (case c of (b, h, val, d) \<Rightarrow>
        (if diff_prefixed val then Inr summary
         else
           rbind (get_lines loads base_file head_file b h) (\<lambda>(bl, hl).
             (case bl of
                None \<Rightarrow> Inr summary
              | Some bline \<Rightarrow>
                  (case hl of
                     None \<Rightarrow> Inr summary
                   | Some hline \<Rightarrow>
                       rbind (py_index bline 0) (\<lambda>bc.
                       rbind (py_index hline 0) (\<lambda>hc.
                         if lt bc = lt hc then Inr summary
                         else update_summary lt summary bline hline)))))))"

section \<open>FileComparison\<close>

text \<open>
  The diff data of a file is a dictionary; each of its keys may be missing. A
  dictionary without keys is falsy.
\<close>

record diff_data =
  stats :: "(int \<times> int) option"
  dd_segments :: "diff_segment list option"
  before :: "string option"
  dd_totals :: "int option"

definition dict_truthy :: "diff_data option \<Rightarrow> bool" where
  "dict_truthy dd =
     (case dd of
        None \<Rightarrow> False
      | Some d \<Rightarrow> \<not> (stats d = None \<and> dd_segments d = None \<and> before d = None \<and> dd_totals d = None))"

record 'c FileComparison =
  base_file :: "'c report_file option"
  head_file :: "'c report_file option"
  fc_diff_data :: "diff_data option"
  fc_src :: "string list"
  total_diff_length :: int
  bypass_max_diff :: bool
  should_search_for_changes :: "bool option"

definition MAX_DIFF_SIZE :: int where
  "MAX_DIFF_SIZE = 170"

text \<open>\<^verbatim>\<open>functools.reduce(lambda a, b: a + b, xs)\<close> on a list that is not empty.\<close>

fun reduce_add :: "int list \<Rightarrow> int" where
  "reduce_add [] = 0"
| "reduce_add (x # xs) = foldl (\<lambda>a b. a + b) x xs"

text \<open>\<^verbatim>\<open>FileComparison.__init__\<close>\<close>

definition new_FileComparison :: "'c report_file option \<Rightarrow> 'c report_file option \<Rightarrow> diff_data option \<Rightarrow>
    string list \<Rightarrow> bool \<Rightarrow> bool option \<Rightarrow> 'c FileComparison" where
  "new_FileComparison bf hf dd source bypass search =
     \<lparr>base_file = bf, head_file = hf, fc_diff_data = dd, fc_src = source,
      total_diff_length =
        (case dd of
           None \<Rightarrow> 0
         | Some d \<Rightarrow>
             (case dd_segments d of
                None \<Rightarrow> 0
              | Some [] \<Rightarrow> 0
              | Some (s # ss) \<Rightarrow> reduce_add (map (\<lambda>segment. int (length (lines segment))) (s # ss)))),
      bypass_max_diff = bypass, should_search_for_changes = search\<rparr>"

text \<open>
  The two visitors of \<^verbatim>\<open>_calculated_changes_and_lines\<close> keep their states side by
  side: the summary first, the lines second.
\<close>

definition on_fst :: "'a visitor \<Rightarrow> ('a \<times> 'b) visitor" where
  "on_fst f c v = rbind (f c (fst v)) (\<lambda>a. Inr (a, snd v))"

definition on_snd :: "'b visitor \<Rightarrow> ('a \<times> 'b) visitor" where
  "on_snd f c v = rbind (f c (snd v)) (\<lambda>b. Inr (fst v, b))"

definition fc_visitors :: "('c \<Rightarrow> LineType) \<Rightarrow> (string \<Rightarrow> error + 'c list) \<Rightarrow> 'c FileComparison \<Rightarrow>
    (counter \<times> 'c LineComparison list) visitor list" where
  "fc_visitors lt loads fc =
     [on_fst (create_change_summary_visitor lt loads (base_file fc) (head_file fc)),
      on_snd (create_line_comparison_visitor loads (base_file fc) (head_file fc))]"

definition file_eof :: "'c report_file option \<Rightarrow> int" where
  "file_eof f = (case f of None \<Rightarrow> 0 | Some rf \<Rightarrow> eof rf)"

definition fc_segments_arg :: "'c FileComparison \<Rightarrow> diff_segment list" where
  "fc_segments_arg fc =
     (case fc_diff_data fc of
        None \<Rightarrow> []
      | Some d \<Rightarrow>
          (if dict_truthy (Some d) then (case dd_segments d of None \<Rightarrow> [] | Some segs \<Rightarrow> segs)
           else []))"

text \<open>
  \<^verbatim>\<open>_calculated_changes_and_lines\<close> with fuel for the traversal: \<open>None\<close> when the
  traversal does not finish within the fuel.
\<close>

definition calculated_changes_and_lines :: "nat \<Rightarrow> ('c \<Rightarrow> LineType) \<Rightarrow> (string \<Rightarrow> error + 'c list) \<Rightarrow>
    'c FileComparison \<Rightarrow> (error + (counter \<times> 'c LineComparison list)) option" where
  "calculated_changes_and_lines fuel lt loads fc =
     (if dict_truthy (fc_diff_data fc) \<or> fc_src fc \<noteq> [] \<or> should_search_for_changes fc \<noteq> Some False then
        (case tm_init (file_eof (head_file fc)) (file_eof (base_file fc)) (fc_segments_arg fc) (fc_src fc) of
           Inl e \<Rightarrow> Some (Inl e)
         | Inr tm \<Rightarrow>
             (case tm_apply fuel (fc_visitors lt loads fc) tm ([], []) of
                None \<Rightarrow> None
              | Some (Inl e) \<Rightarrow> Some (Inl e)
              | Some (Inr (tm', v)) \<Rightarrow> Some (Inr v)))
      else Some (Inr ([], [])))"

definition change_summary :: "nat \<Rightarrow> ('c \<Rightarrow> LineType) \<Rightarrow> (string \<Rightarrow> error + 'c list) \<Rightarrow>
    'c FileComparison \<Rightarrow> (error + counter) option" where
  "change_summary fuel lt loads fc =
     (case calculated_changes_and_lines fuel lt loads fc of
        None \<Rightarrow> None
      | Some (Inl e) \<Rightarrow> Some (Inl e)
      | Some (Inr v) \<Rightarrow> Some (Inr (fst v)))"

text \<open>\<^verbatim>\<open>any(self.change_summary.values())\<close>\<close>

definition counter_any :: "counter \<Rightarrow> bool" where
  "counter_any c = list_ex (\<lambda>n. n \<noteq> 0) (map snd c)"

definition has_changes :: "nat \<Rightarrow> ('c \<Rightarrow> LineType) \<Rightarrow> (string \<Rightarrow> error + 'c list) \<Rightarrow>
    'c FileComparison \<Rightarrow> (error + bool) option" where
  "has_changes fuel lt loads fc =
     (case change_summary fuel lt loads fc of
        None \<Rightarrow> None
      | Some (Inl e) \<Rightarrow> Some (Inl e)
      | Some (Inr c) \<Rightarrow> Some (Inr (counter_any c)))"

text \<open>
  The property \<^verbatim>\<open>lines\<close>: \<^verbatim>\<open>None\<close> for a truncated diff, without any traversal;
  otherwise the second component of \<^verbatim>\<open>_calculated_changes_and_lines\<close>.
\<close>

definition fc_lines :: "nat \<Rightarrow> ('c \<Rightarrow> LineType) \<Rightarrow> (string \<Rightarrow> error + 'c list) \<Rightarrow>
    'c FileComparison \<Rightarrow> (error + 'c LineComparison list option) option" where
  "fc_lines fuel lt loads fc =
     (if total_diff_length fc > MAX_DIFF_SIZE \<and> \<not> bypass_max_diff fc then Some (Inr None)
      else (case calculated_changes_and_lines fuel lt loads fc of
              None \<Rightarrow> None
            | Some (Inl e) \<Rightarrow> Some (Inl e)
            | Some (Inr v) \<Rightarrow> Some (Inr (Some (snd v)))))"

text \<open>
  The change summary of an unchanged file in the spec's words, to compare the
  traversal with. Line \<open>n\<close> changes its coverage class when the lookup finds a line
  array with a coverage value in both report files and the two classes differ; such a
  line adds one to the bucket of its head class and takes one from the bucket of its
  base class.
\<close>

definition class_change :: "('c \<Rightarrow> LineType) \<Rightarrow> (string \<Rightarrow> error + 'c list) \<Rightarrow>
    'c report_file option \<Rightarrow> 'c report_file option \<Rightarrow> int \<Rightarrow> (LineType \<times> LineType) option" where
  "class_change lt loads bf hf n =
     (case get_lines loads bf hf (Some n) (Some n) of
        Inr (Some (b # _), Some (h # _)) \<Rightarrow> if lt b = lt h then None else Some (lt b, lt h)
      | _ \<Rightarrow> None)"

definition bucket_delta :: "('c \<Rightarrow> LineType) \<Rightarrow> (string \<Rightarrow> error + 'c list) \<Rightarrow>
    'c report_file option \<Rightarrow> 'c report_file option \<Rightarrow> int \<Rightarrow> string \<Rightarrow> int" where
  "bucket_delta lt loads bf hf n k =
     (case class_change lt loads bf hf n of
        None \<Rightarrow> 0
      | Some (b, h) \<Rightarrow>
          (if coverage_type_map h = k then 1 else 0) - (if coverage_type_map b = k then 1 else 0))"

section \<open>Segment: grouping lines into display segments\<close>

datatype 'c Segment = Segment "'c LineComparison list"

definition padding_lines :: int where
  "padding_lines = 3"

definition line_distance :: int where
  "line_distance = 6"

text \<open>\<^verbatim>\<open>xs[a:b]\<close>: a bound below zero counts from the end; both are clamped to the list.\<close>

definition slice_bound :: "'a list \<Rightarrow> int \<Rightarrow> int" where
  "slice_bound xs i = (if i < 0 then max (int (length xs) + i) 0 else min i (int (length xs)))"

definition py_slice :: "'a list \<Rightarrow> int \<Rightarrow> int \<Rightarrow> 'a list" where
  "py_slice xs a b = take (nat (slice_bound xs b) - nat (slice_bound xs a)) (drop (nat (slice_bound xs a)) xs)"

text \<open>The condition under which \<^verbatim>\<open>Segment.segments\<close> keeps the index of a line.\<close>

definition line_of_interest :: "('c \<Rightarrow> LineType) \<Rightarrow> 'c LineComparison \<Rightarrow> bool" where
  "line_of_interest lt line =
     (fst (coverage lt line) \<noteq> snd (coverage lt line) \<or> added line \<or> removed line)"

definition line_numbers :: "('c \<Rightarrow> LineType) \<Rightarrow> 'c LineComparison list \<Rightarrow> int list" where
  "line_numbers lt ls =
     map (\<lambda>(idx, line). int idx) (filter (\<lambda>(idx, line). line_of_interest lt line) (enumerate 0 ls))"

text \<open>\<^verbatim>\<open>segmented_lines[-1].append(line_number)\<close>\<close>

definition append_to_last :: "int list list \<Rightarrow> int \<Rightarrow> error + int list list" where
  "append_to_last segmented line_number =
     (if segmented = [] then Inl IndexError
      else Inr (butlast segmented @ [last segmented @ [line_number]]))"

text \<open>The loop over \<^verbatim>\<open>line_numbers\<close>, with its variables \<^verbatim>\<open>segmented_lines\<close> and \<^verbatim>\<open>last\<close>.\<close>

fun group_loop :: "int list \<Rightarrow> int list list \<Rightarrow> int option \<Rightarrow> error + int list list" where
  "group_loop [] segmented last_seen = Inr segmented"
| "group_loop (line_number # rest) segmented last_seen =
     (if (case last_seen of None \<Rightarrow> True | Some l \<Rightarrow> line_number - l \<le> line_distance) then
        rbind (append_to_last segmented line_number) (\<lambda>segmented'.
          group_loop rest segmented' (Some line_number))
      else group_loop rest (segmented @ [[line_number]]) (Some line_number))"

definition segmented_lines :: "int list \<Rightarrow> error + int list list" where
  "segmented_lines numbers = (if length numbers > 0 then group_loop numbers [[]] None else Inr [])"

definition segment_of_group :: "'c LineComparison list \<Rightarrow> int list \<Rightarrow> error + 'c Segment" where
  "segment_of_group ls grp =
     rbind (py_index grp 0) (\<lambda>first.
     rbind (py_index grp (- 1)) (\<lambda>final.
       Inr (Segment (py_slice ls (max (first - padding_lines) 0)
                      (min (final + padding_lines) (int (length ls) - 1) + 1)))))"

fun segments_loop :: "'c LineComparison list \<Rightarrow> int list list \<Rightarrow> error + 'c Segment list" where
  "segments_loop ls [] = Inr []"
| "segments_loop ls (grp # rest) =
     rbind (segment_of_group ls grp) (\<lambda>segment.
     rbind (segments_loop ls rest) (\<lambda>more. Inr (segment # more)))"

text \<open>
  \<^verbatim>\<open>Segment.segments\<close>, on the value of \<^verbatim>\<open>file_comparison.lines\<close>: iterating over
  \<^verbatim>\<open>None\<close> raises TypeError.
\<close>

definition Segment_segments :: "('c \<Rightarrow> LineType) \<Rightarrow> 'c LineComparison list option \<Rightarrow> error + 'c Segment list" where
  "Segment_segments lt lines_opt =
     (case lines_opt of
        None \<Rightarrow> Inl TypeError
      | Some ls \<Rightarrow> rbind (segmented_lines (line_numbers lt ls)) (segments_loop ls))"

text \<open>
  The grouping in the spec's words, to compare the loop with: the groups are the list
  of indices cut into pieces; inside a piece successive indices are at most \<open>d\<close>
  apart, and from the end of a piece to the start of the next it is more than \<open>d\<close>.
  A piece with first index \<open>i\<close> and last index \<open>j\<close> is shown as the lines at
  \<open>max 0 (i - 3), \<dots>, min (len - 1) (j + 3)\<close>.
\<close>

fun gaps_within :: "int \<Rightarrow> int list \<Rightarrow> bool" where
  "gaps_within d [] = True"
| "gaps_within d [x] = True"
| "gaps_within d (x # y # r) = (y - x \<le> d \<and> gaps_within d (y # r))"

fun gaps_between :: "int \<Rightarrow> int list list \<Rightarrow> bool" where
  "gaps_between d [] = True"
| "gaps_between d [g] = True"
| "gaps_between d (g # h # r) =
     (g \<noteq> [] \<and> h \<noteq> [] \<and> hd h - last g > d \<and> gaps_between d (h # r))"

definition spec_clusters :: "int \<Rightarrow> int list \<Rightarrow> int list list \<Rightarrow> bool" where
  "spec_clusters d numbers groups =
     (concat groups = numbers \<and> list_all (\<lambda>g. g \<noteq> [] \<and> gaps_within d g) groups
      \<and> gaps_between d groups)"

definition spec_window :: "'a list \<Rightarrow> int list \<Rightarrow> 'a list" where
  "spec_window ls g =
     map (\<lambda>i. ls ! nat i) [max 0 (hd g - 3) .. min (int (length ls) - 1) (last g + 3)]"

section \<open>Comparison.upload_commits\<close>

text \<open>
  Modelled from the spec: the commit store behind \<^verbatim>\<open>Commit.objects\<close> is a list of
  commit rows; \<^verbatim>\<open>filter\<close> and \<^verbatim>\<open>exclude\<close> of a queryset return a new queryset and
  leave the one they are called on as it is.
\<close>

record commit =
  commitid :: string
  repository :: nat
  deleted :: bool

definition qs_filter :: "(commit \<Rightarrow> bool) \<Rightarrow> commit list \<Rightarrow> commit list" where
  "qs_filter p qs = filter p qs"

definition qs_exclude :: "(commit \<Rightarrow> bool) \<Rightarrow> commit list \<Rightarrow> commit list" where
  "qs_exclude p qs = filter (\<lambda>c. \<not> p c) qs"

text \<open>
  \<^verbatim>\<open>upload_commits\<close>: the result of \<^verbatim>\<open>commits_queryset.exclude(deleted=True)\<close> is
  bound to nothing, and the queryset of the \<^verbatim>\<open>filter\<close> call is returned.
\<close>

definition upload_commits :: "commit list \<Rightarrow> string list \<Rightarrow> nat \<Rightarrow> commit list" where
  "upload_commits store git_commits base_repository =
     (let commit_ids = git_commits;
          commits_queryset =
            qs_filter (\<lambda>c. commitid c \<in> set commit_ids \<and> repository c = base_repository) store;
          discarded = qs_exclude deleted commits_queryset
      in commits_queryset)"

section \<open>PullRequestComparison: the cache of files with changes\<close>

text \<open>
  \<^verbatim>\<open>_files_with_changes\<close>. \<open>redis_get\<close> is what \<^verbatim>\<open>redis.get(key)\<close> does: it raises or
  returns the stored bytes or \<^verbatim>\<open>None\<close>; \<open>loads_names\<close> is \<^verbatim>\<open>json.loads\<close> on the
  cached text (\<^verbatim>\<open>json.dumps(None)\<close> is the text \<^verbatim>\<open>null\<close>). An OSError raised in the
  \<^verbatim>\<open>try\<close> block is caught and logged, and the property returns \<^verbatim>\<open>None\<close>; every other
  error propagates.
\<close>

definition files_with_changes :: "error + string option \<Rightarrow> (string \<Rightarrow> error + string list option) \<Rightarrow>
    error + string list option" where
  "files_with_changes redis_get loads_names =
     (case rbind redis_get (\<lambda>cached.
             loads_names (case cached of None \<Rightarrow> ''null'' | Some [] \<Rightarrow> ''null'' | Some (c # cs) \<Rightarrow> c # cs)) of
        Inl e \<Rightarrow> (if e = OSError then Inr None else Inl e)
      | Inr changes \<Rightarrow> Inr changes)"

text \<open>
  \<^verbatim>\<open>PullRequestComparison.get_file_comparison\<close>; \<open>file_comparison\<close> is what the
  method of \<^verbatim>\<open>Comparison\<close> returned.
\<close>

definition pr_get_file_comparison :: "error + string option \<Rightarrow> (string \<Rightarrow> error + string list option) \<Rightarrow>
    string \<Rightarrow> 'c FileComparison \<Rightarrow> error + 'c FileComparison" where
  "pr_get_file_comparison redis_get loads_names file_name file_comparison =
     rbind (files_with_changes redis_get loads_names) (\<lambda>changes.
       Inr (file_comparison\<lparr>should_search_for_changes :=
              (case changes of None \<Rightarrow> None | Some names \<Rightarrow> Some (file_name \<in> set names))\<rparr>))"

section \<open>A visitor that records its calls\<close>

text \<open>
  The traversal takes any list of visitors; this one keeps the arguments of every call,
  in order.
\<close>

definition record_calls :: "call list visitor" where
  "record_calls c cs = Inr (cs @ [c])"

section \<open>Basic facts\<close>

lemma rbind_Inl [simp]: "rbind (Inl e) f = Inl e"
  by (simp add: rbind_def)

lemma rbind_Inr [simp]: "rbind (Inr x) f = f x"
  by (simp add: rbind_def)

text \<open>A traversal that returned keeps its result when it is given more fuel.\<close>

lemma tm_apply_more_fuel:
  "tm_apply n visitors tm v = Some r \<Longrightarrow> tm_apply (n + k) visitors tm v = Some r"
proof (induction n arbitrary: tm v)
  case 0
  then show ?case by (cases k) (simp_all split: if_splits)
next
  case (Suc n)
  then show ?case by (auto split: if_splits sum.splits)
qed

lemmas traverse_defs = tm_init_def header_int_def py_index_def traverse_finished_def
  traversing_diff_def within_offset_def int_or_1_def pop_line_def apply_step_def
  advance_def drop_exhausted_def is_added_def is_removed_def

section \<open>The traverser's initial cursors\<close>

text \<open>
  Claim C1, as the code has it. When the first segment's header holds the integers
  \<open>b\<close> (base start) and \<open>h\<close> (head start), the traverser starts with the base
  cursor at \<open>min 1 b\<close> and the head cursor at \<open>min 1 h\<close>: at line 1 of the file, or
  at 0 where the header reports 0. For the single segment with header [0, 0, 1, 3] and
  lines "+a", "+b", " c" and no source, the traversal ends after three iterations; it
  calls the visitors three times, with the line numbers (None, 1), (None, 2), (0, 3),
  and the first two of the three line comparisons are flagged added.
\<close>

theorem C1_initial_cursors:
  "(header_int s 0 = Inr b \<longrightarrow> header_int s 2 = Inr h \<longrightarrow>
      (\<exists>tm. tm_init heof beof (s # ss) source = Inr tm \<and> base_ln tm = min 1 b \<and> head_ln tm = min 1 h
            \<and> segments tm = s # ss \<and> src tm = source))
   \<and> (\<exists>tm0 tm' calls ls.
         tm_init 0 0 [\<lparr>header = [HInt 0, HInt 0, HInt 1, HInt 3], lines = [''+a'', ''+b'', '' c'']\<rparr>] [] = Inr tm0
       \<and> tm_apply 3 [on_fst record_calls, on_snd (create_line_comparison_visitor loads None None)] tm0 ([], [])
           = Some (Inr (tm', calls, ls))
       \<and> map (\<lambda>(b, h, v, d). (b, h)) calls = [(None, Some 1), (None, Some 2), (Some 0, Some 3)]
       \<and> map number ls = [(None, Some 1), (None, Some 2), (Some 0, Some 3)]
       \<and> map added ls = [True, True, False])"
proof (intro conjI impI)
  assume "header_int s 0 = Inr b" "header_int s 2 = Inr h"
  then show "\<exists>tm. tm_init heof beof (s # ss) source = Inr tm \<and> base_ln tm = min 1 b \<and> head_ln tm = min 1 h
            \<and> segments tm = s # ss \<and> src tm = source"
    by (simp add: tm_init_def)
next
  show "\<exists>tm0 tm' calls ls.
         tm_init 0 0 [\<lparr>header = [HInt 0, HInt 0, HInt 1, HInt 3], lines = [''+a'', ''+b'', '' c'']\<rparr>] [] = Inr tm0
       \<and> tm_apply 3 [on_fst record_calls, on_snd (create_line_comparison_visitor loads None None)] tm0 ([], [])
           = Some (Inr (tm', calls, ls))
       \<and> map (\<lambda>(b, h, v, d). (b, h)) calls = [(None, Some 1), (None, Some 2), (Some 0, Some 3)]
       \<and> map number ls = [(None, Some 1), (None, Some 2), (Some 0, Some 3)]
       \<and> map added ls = [True, True, False]"
    by (simp add: traverse_defs numeral_3_eq_3 on_fst_def on_snd_def record_calls_def
        create_line_comparison_visitor_def get_lines_def get_line_def new_LineComparison_def number_def)
qed

theorem C1_initial_cursors_witness:
  "header_int \<lparr>header = [HStr 12, HStr 2, HStr 12, HStr 3], lines = [''+some line'']\<rparr> 0 = Inr 12
   \<and> header_int \<lparr>header = [HStr 12, HStr 2, HStr 12, HStr 3], lines = [''+some line'']\<rparr> 2 = Inr 12
   \<and> (\<exists>tm. tm_init 2 2 [\<lparr>header = [HStr 12, HStr 2, HStr 12, HStr 3], lines = [''+some line'']\<rparr>]
              [''a line from src''] = Inr tm
          \<and> base_ln tm = 1 \<and> head_ln tm = 1)"
  using C1_initial_cursors [of "\<lparr>header = [HStr 12, HStr 2, HStr 12, HStr 3], lines = [''+some line'']\<rparr>"
      12 12 2 2 "[]" "[''a line from src'']"]
  by (simp add: header_int_def py_index_def tm_init_def)

text \<open>
  The claim as stated fails on the code: for the header [0, 0, 1, 3] the base cursor
  starts at 0, not at max(1, 0) = 1, and the third visit has the base line number 0.
\<close>

theorem C1_initial_cursors_counterexample:
  "tm_init 0 0 [\<lparr>header = [HInt 0, HInt 0, HInt 1, HInt 3], lines = [''+a'', ''+b'', '' c'']\<rparr>] []
     = Inr \<lparr>head_file_eof = 0, base_file_eof = 0,
            segments = [\<lparr>header = [HInt 0, HInt 0, HInt 1, HInt 3], lines = [''+a'', ''+b'', '' c'']\<rparr>],
            src = [], base_ln = 0, head_ln = 1\<rparr>
   \<and> (0 :: int) \<noteq> max 1 0
   \<and> tm_apply 3 [record_calls]
        \<lparr>head_file_eof = 0, base_file_eof = 0,
         segments = [\<lparr>header = [HInt 0, HInt 0, HInt 1, HInt 3], lines = [''+a'', ''+b'', '' c'']\<rparr>],
         src = [], base_ln = 0, head_ln = 1\<rparr> []
     = Some (Inr (\<lparr>head_file_eof = 0, base_file_eof = 0, segments = [], src = [], base_ln = 1, head_ln = 4\<rparr>,
                  [(None, Some 1, Some ''+a'', True), (None, Some 2, Some ''+b'', True),
                   (Some 0, Some 3, Some '' c'', True)]))
   \<and> [(None, Some 1), (None, Some 2), (Some 0, Some (3 :: int))]
       \<noteq> [(None, Some 1), (None, Some 2), (Some (1 :: int), Some 3)]"
  by (simp add: traverse_defs numeral_3_eq_3 record_calls_def)

section \<open>The change-summary visitor\<close>

lemma counter_get_add:
  "counter_get (counter_add c k d) k' = counter_get c k' + (if k' = k then d else 0)"
  by (simp add: counter_get_def counter_add_def update_conv)

lemma coverage_type_map_inj: "coverage_type_map a = coverage_type_map b \<longleftrightarrow> a = b"
  by (cases a; cases b) simp_all

lemma diff_prefixed_iff:
  "diff_prefixed val \<longleftrightarrow> (\<exists>c cs. val = Some (c # cs) \<and> (c = CHR ''+'' \<or> c = CHR ''-''))"
  by (auto simp: diff_prefixed_def split: option.splits list.splits)

text \<open>
  Claim C2. A call of the change-summary visitor leaves the summary as it is when the
  raw value starts with "+" or "-", when the base or the head report line is absent,
  and when both lines have the same coverage class. For every other line (both report
  lines found, classes different) the bucket of the base class goes down by one, the
  bucket of the head class goes up by one and no other bucket changes; from the empty
  summary, a base miss and a head hit give misses: -1, hits: +1.
\<close>

theorem C2_change_summary_visitor:
  "(diff_prefixed val \<longleftrightarrow> (\<exists>c cs. val = Some (c # cs) \<and> (c = CHR ''+'' \<or> c = CHR ''-'')))
   \<and> (diff_prefixed val \<longrightarrow>
        create_change_summary_visitor lt loads bf hf (b, h, val, d) summary = Inr summary)
   \<and> (\<not> diff_prefixed val \<longrightarrow> get_lines loads bf hf b h = Inr (bl, hl) \<longrightarrow> (bl = None \<or> hl = None) \<longrightarrow>
        create_change_summary_visitor lt loads bf hf (b, h, val, d) summary = Inr summary)
   \<and> (\<not> diff_prefixed val \<longrightarrow> get_lines loads bf hf b h = Inr (Some (bc # brest), Some (hc # hrest)) \<longrightarrow>
        lt bc = lt hc \<longrightarrow>
        create_change_summary_visitor lt loads bf hf (b, h, val, d) summary = Inr summary)
   \<and> (\<not> diff_prefixed val \<longrightarrow> get_lines loads bf hf b h = Inr (Some (bc # brest), Some (hc # hrest)) \<longrightarrow>
        lt bc \<noteq> lt hc \<longrightarrow>
        (\<exists>summary'. create_change_summary_visitor lt loads bf hf (b, h, val, d) summary = Inr summary'
           \<and> summary' = counter_add (counter_add summary (coverage_type_map (lt bc)) (- 1))
                           (coverage_type_map (lt hc)) 1
           \<and> counter_get summary' (coverage_type_map (lt bc)) = counter_get summary (coverage_type_map (lt bc)) - 1
           \<and> counter_get summary' (coverage_type_map (lt hc)) = counter_get summary (coverage_type_map (lt hc)) + 1
           \<and> (\<forall>k. k \<noteq> coverage_type_map (lt bc) \<longrightarrow> k \<noteq> coverage_type_map (lt hc) \<longrightarrow>
                  counter_get summary' k = counter_get summary k)))
   \<and> (\<not> diff_prefixed val \<longrightarrow> get_lines loads bf hf b h = Inr (Some (bc # brest), Some (hc # hrest)) \<longrightarrow>
        lt bc = miss \<longrightarrow> lt hc = hit \<longrightarrow>
        create_change_summary_visitor lt loads bf hf (b, h, val, d) [] = Inr [(''misses'', - 1), (''hits'', 1)])"
proof (intro conjI impI)
  show "diff_prefixed val \<longleftrightarrow> (\<exists>c cs. val = Some (c # cs) \<and> (c = CHR ''+'' \<or> c = CHR ''-''))"
    by (rule diff_prefixed_iff)
next
  assume "diff_prefixed val"
  then show "create_change_summary_visitor lt loads bf hf (b, h, val, d) summary = Inr summary"
    by (simp add: create_change_summary_visitor_def)
next
  assume "\<not> diff_prefixed val" "get_lines loads bf hf b h = Inr (bl, hl)" "bl = None \<or> hl = None"
  then show "create_change_summary_visitor lt loads bf hf (b, h, val, d) summary = Inr summary"
    by (auto simp: create_change_summary_visitor_def split: option.splits)
next
  assume "\<not> diff_prefixed val" "get_lines loads bf hf b h = Inr (Some (bc # brest), Some (hc # hrest))"
    "lt bc = lt hc"
  then show "create_change_summary_visitor lt loads bf hf (b, h, val, d) summary = Inr summary"
    by (simp add: create_change_summary_visitor_def py_index_def)
next
  assume a: "\<not> diff_prefixed val" "get_lines loads bf hf b h = Inr (Some (bc # brest), Some (hc # hrest))"
    "lt bc \<noteq> lt hc"
  then have "create_change_summary_visitor lt loads bf hf (b, h, val, d) summary
      = Inr (counter_add (counter_add summary (coverage_type_map (lt bc)) (- 1)) (coverage_type_map (lt hc)) 1)"
    by (simp add: create_change_summary_visitor_def py_index_def update_summary_def)
  with a(3) show "\<exists>summary'. create_change_summary_visitor lt loads bf hf (b, h, val, d) summary = Inr summary'
           \<and> summary' = counter_add (counter_add summary (coverage_type_map (lt bc)) (- 1))
                           (coverage_type_map (lt hc)) 1
           \<and> counter_get summary' (coverage_type_map (lt bc)) = counter_get summary (coverage_type_map (lt bc)) - 1
           \<and> counter_get summary' (coverage_type_map (lt hc)) = counter_get summary (coverage_type_map (lt hc)) + 1
           \<and> (\<forall>k. k \<noteq> coverage_type_map (lt bc) \<longrightarrow> k \<noteq> coverage_type_map (lt hc) \<longrightarrow>
                  counter_get summary' k = counter_get summary k)"
    by (simp add: counter_get_add coverage_type_map_inj)
next
  assume "\<not> diff_prefixed val" "get_lines loads bf hf b h = Inr (Some (bc # brest), Some (hc # hrest))"
    "lt bc = miss" "lt hc = hit"
  then show "create_change_summary_visitor lt loads bf hf (b, h, val, d) [] = Inr [(''misses'', - 1), (''hits'', 1)]"
    by (simp add: create_change_summary_visitor_def py_index_def update_summary_def counter_add_def
        counter_get_def)
qed

theorem C2_change_summary_visitor_witness:
  "\<not> diff_prefixed (Some '' x = 1'')
   \<and> get_lines (\<lambda>s. Inl JSONDecodeError) (Some \<lparr>rf_lines = [CList [1], CList [0 :: int]], eof = 3\<rparr>)
        (Some \<lparr>rf_lines = [CList [1], CList [1]], eof = 3\<rparr>) (Some 2) (Some 2)
       = Inr (Some [0], Some [1])
   \<and> create_change_summary_visitor (\<lambda>n. if n = 0 then miss else if n = 1 then hit else partial)
        (\<lambda>s. Inl JSONDecodeError) (Some \<lparr>rf_lines = [CList [1], CList [0 :: int]], eof = 3\<rparr>)
        (Some \<lparr>rf_lines = [CList [1], CList [1]], eof = 3\<rparr>) (Some 2, Some 2, Some '' x = 1'', False) []
       = Inr [(''misses'', - 1), (''hits'', 1)]"
  using C2_change_summary_visitor [of "Some '' x = 1''" "\<lambda>n. if n = 0 then miss else if n = 1 then hit else partial"
      "\<lambda>s. Inl JSONDecodeError" "Some \<lparr>rf_lines = [CList [1], CList [0 :: int]], eof = 3\<rparr>"
      "Some \<lparr>rf_lines = [CList [1], CList [1]], eof = 3\<rparr>" "Some 2" "Some 2" False "[]"
      "Some [0]" "Some [1]" 0 "[]" 1 "[]"]
  by (simp add: diff_prefixed_def get_lines_def get_line_def py_index_def counter_add_def counter_get_def)

section \<open>Invariants of the visitors' state\<close>

lemma run_visitors_invariant:
  assumes step: "\<And>f c v v'. f \<in> set visitors \<Longrightarrow> P v \<Longrightarrow> f c v = Inr v' \<Longrightarrow> P v'"
  shows "P v \<Longrightarrow> run_visitors visitors tm line_value v = Inr v' \<Longrightarrow> P v'"
  using step
proof (induction visitors arbitrary: v)
  case Nil
  then show ?case by simp
next
  case (Cons f fs)
  from Cons.prems(2) obtain d v1 where d: "traversing_diff tm = Inr d"
    and f: "f (if is_added line_value then None else Some (base_ln tm),
               if is_removed line_value then None else Some (head_ln tm), line_value, d) v = Inr v1"
    and rest: "run_visitors fs tm line_value v1 = Inr v'"
    by (auto simp: rbind_def split: sum.splits)
  have "f \<in> set (f # fs)" by simp
  then have "P v1" using Cons.prems(1) f by (rule Cons.prems(3))
  moreover have "\<And>g c v v'. g \<in> set fs \<Longrightarrow> P v \<Longrightarrow> g c v = Inr v' \<Longrightarrow> P v'"
    using Cons.prems(3) by (meson list.set_intros(2))
  ultimately show ?case using Cons.IH rest by blast
qed

lemma tm_apply_invariant:
  assumes step: "\<And>f c v v'. f \<in> set visitors \<Longrightarrow> P v \<Longrightarrow> f c v = Inr v' \<Longrightarrow> P v'"
  shows "P v \<Longrightarrow> tm_apply n visitors tm v = Some (Inr (tm', v')) \<Longrightarrow> P v'"
proof (induction n arbitrary: tm v)
  case 0
  then show ?case by (simp split: if_splits)
next
  case (Suc n)
  show ?case
  proof (cases "traverse_finished tm")
    case True
    with Suc.prems show ?thesis by simp
  next
    case False
    with Suc.prems(2) obtain tm1 v1 where s: "apply_step visitors tm v = Inr (tm1, v1)"
      and r: "tm_apply n visitors tm1 v1 = Some (Inr (tm', v'))"
      by (auto split: sum.splits)
    from s obtain lv tm0 where "run_visitors visitors tm0 lv v = Inr v1"
      by (auto simp: apply_step_def rbind_def split: sum.splits prod.splits)
    then have "P v1" using run_visitors_invariant [of visitors P v tm0 lv v1] step Suc.prems(1) by blast
    then show ?thesis using Suc.IH r by blast
  qed
qed

lemma counter_add_keys:
  "distinct (map fst c) \<Longrightarrow> distinct (map fst (counter_add c k d))"
  "fst ` set (counter_add c k d) = insert k (fst ` set c)"
  by (simp_all add: counter_add_def distinct_update dom_update)

lemma coverage_type_map_range:
  "coverage_type_map t \<in> {''hits'', ''misses'', ''partials''}"
  by (cases t) simp_all

lemma change_summary_visitor_keys:
  assumes "distinct (map fst s) \<and> fst ` set s \<subseteq> {''hits'', ''misses'', ''partials''}"
    and "create_change_summary_visitor lt loads bf hf c s = Inr s'"
  shows "distinct (map fst s') \<and> fst ` set s' \<subseteq> {''hits'', ''misses'', ''partials''}"
proof -
  have "s' = s \<or> (\<exists>k1 k2. k1 \<in> {''hits'', ''misses'', ''partials''} \<and> k2 \<in> {''hits'', ''misses'', ''partials''}
      \<and> s' = counter_add (counter_add s k1 (- 1)) k2 1)"
    using assms(2) coverage_type_map_range
    by (auto simp: create_change_summary_visitor_def update_summary_def rbind_def
        split: prod.splits if_splits sum.splits option.splits)
  then show ?thesis
  proof
    assume "s' = s" with assms(1) show ?thesis by simp
  next
    assume "\<exists>k1 k2. k1 \<in> {''hits'', ''misses'', ''partials''} \<and> k2 \<in> {''hits'', ''misses'', ''partials''}
      \<and> s' = counter_add (counter_add s k1 (- 1)) k2 1"
    then obtain k1 k2 where k: "k1 \<in> {''hits'', ''misses'', ''partials''}"
      "k2 \<in> {''hits'', ''misses'', ''partials''}" "s' = counter_add (counter_add s k1 (- 1)) k2 1"
      by blast
    have "distinct (map fst s')" using assms(1) k(3) by (simp add: counter_add_keys(1))
    moreover have "fst ` set s' \<subseteq> {''hits'', ''misses'', ''partials''}"
      using assms(1) k by (simp only: counter_add_keys(2)) blast
    ultimately show ?thesis by simp
  qed
qed

lemma fc_visitors_keys:
  assumes "f \<in> set (fc_visitors lt loads fc)"
    and "distinct (map fst (fst v)) \<and> fst ` set (fst v) \<subseteq> {''hits'', ''misses'', ''partials''}"
    and "f c v = Inr v'"
  shows "distinct (map fst (fst v')) \<and> fst ` set (fst v') \<subseteq> {''hits'', ''misses'', ''partials''}"
proof -
  from assms(1) consider
    "f = on_fst (create_change_summary_visitor lt loads (base_file fc) (head_file fc))"
    | "f = on_snd (create_line_comparison_visitor loads (base_file fc) (head_file fc))"
    by (auto simp: fc_visitors_def)
  then show ?thesis
  proof cases
    case 1
    with assms(3) obtain s' where
      "create_change_summary_visitor lt loads (base_file fc) (head_file fc) c (fst v) = Inr s'" "fst v' = s'"
      by (auto simp: on_fst_def rbind_def split: sum.splits)
    then show ?thesis using change_summary_visitor_keys [OF assms(2)] by blast
  next
    case 2
    with assms(3) have "fst v' = fst v"
      by (auto simp: on_snd_def rbind_def split: sum.splits)
    with assms(2) show ?thesis by simp
  qed
qed

lemma change_summary_keys:
  assumes "change_summary fuel lt loads fc = Some (Inr c)"
  shows "distinct (map fst c) \<and> fst ` set c \<subseteq> {''hits'', ''misses'', ''partials''}"
proof -
  from assms obtain ls where calc: "calculated_changes_and_lines fuel lt loads fc = Some (Inr (c, ls))"
    by (auto simp: change_summary_def split: option.splits sum.splits)
  show ?thesis
  proof (cases "dict_truthy (fc_diff_data fc) \<or> fc_src fc \<noteq> [] \<or> should_search_for_changes fc \<noteq> Some False")
    case False
    with calc show ?thesis by (auto simp: calculated_changes_and_lines_def)
  next
    case True
    with calc obtain tm tm' where
      "tm_apply fuel (fc_visitors lt loads fc) tm ([], []) = Some (Inr (tm', (c, ls)))"
      by (auto simp: calculated_changes_and_lines_def split: sum.splits option.splits)
    from tm_apply_invariant [of "fc_visitors lt loads fc"
        "\<lambda>v. distinct (map fst (fst v)) \<and> fst ` set (fst v) \<subseteq> {''hits'', ''misses'', ''partials''}",
        OF fc_visitors_keys _ this]
    show ?thesis by simp
  qed
qed

lemma counter_any_iff:
  assumes "distinct (map fst c)" "fst ` set c \<subseteq> {''hits'', ''misses'', ''partials''}"
  shows "counter_any c \<longleftrightarrow>
    (counter_get c ''hits'' \<noteq> 0 \<or> counter_get c ''misses'' \<noteq> 0 \<or> counter_get c ''partials'' \<noteq> 0)"
proof
  assume "counter_any c"
  then obtain k n where kn: "(k, n) \<in> set c" "n \<noteq> 0"
    by (auto simp: counter_any_def list_ex_iff)
  with assms(1) have "counter_get c k = n" by (simp add: counter_get_def)
  moreover from kn(1) assms(2) have "k \<in> {''hits'', ''misses'', ''partials''}" by force
  ultimately show "counter_get c ''hits'' \<noteq> 0 \<or> counter_get c ''misses'' \<noteq> 0 \<or> counter_get c ''partials'' \<noteq> 0"
    using kn(2) by auto
next
  assume "counter_get c ''hits'' \<noteq> 0 \<or> counter_get c ''misses'' \<noteq> 0 \<or> counter_get c ''partials'' \<noteq> 0"
  then obtain k where "counter_get c k \<noteq> 0" by blast
  then obtain n where "map_of c k = Some n" "n \<noteq> 0"
    by (auto simp: counter_get_def split: option.splits)
  then have "(k, n) \<in> set c" by (simp add: map_of_SomeD)
  with \<open>n \<noteq> 0\<close> show "counter_any c" by (force simp: counter_any_def list_ex_iff)
qed

section \<open>has_changes\<close>

text \<open>
  Claim C10. Whenever the change summary of a file comparison is computed,
  \<^verbatim>\<open>has_changes\<close> is computed too and is true exactly when one of the buckets hits,
  misses, partials of the summary is not zero. A file whose first line goes from miss
  to hit and whose second line goes from hit to miss (no diff, no source) has the
  summary misses: 0, hits: 0, and \<^verbatim>\<open>has_changes\<close> is false, although the first line
  alone gives misses: -1, hits: +1.
\<close>

theorem C10_has_changes:
  "(change_summary fuel lt loads fc = Some (Inr c) \<longrightarrow>
      has_changes fuel lt loads fc
        = Some (Inr (counter_get c ''hits'' \<noteq> 0 \<or> counter_get c ''misses'' \<noteq> 0 \<or> counter_get c ''partials'' \<noteq> 0)))
   \<and> (lt a = miss \<longrightarrow> lt b = hit \<longrightarrow>
        change_summary 2 lt loads
          (new_FileComparison (Some \<lparr>rf_lines = [CList [a], CList [b]], eof = 3\<rparr>)
             (Some \<lparr>rf_lines = [CList [b], CList [a]], eof = 3\<rparr>) None [] False None)
          = Some (Inr [(''misses'', 0), (''hits'', 0)])
      \<and> has_changes 2 lt loads
          (new_FileComparison (Some \<lparr>rf_lines = [CList [a], CList [b]], eof = 3\<rparr>)
             (Some \<lparr>rf_lines = [CList [b], CList [a]], eof = 3\<rparr>) None [] False None)
          = Some (Inr False)
      \<and> create_change_summary_visitor lt loads (Some \<lparr>rf_lines = [CList [a], CList [b]], eof = 3\<rparr>)
             (Some \<lparr>rf_lines = [CList [b], CList [a]], eof = 3\<rparr>) (Some 1, Some 1, None, False) []
          = Inr [(''misses'', - 1), (''hits'', 1)])"
proof (intro conjI impI)
  assume c: "change_summary fuel lt loads fc = Some (Inr c)"
  then have "distinct (map fst c)" "fst ` set c \<subseteq> {''hits'', ''misses'', ''partials''}"
    using change_summary_keys by blast+
  then have "counter_any c \<longleftrightarrow>
    (counter_get c ''hits'' \<noteq> 0 \<or> counter_get c ''misses'' \<noteq> 0 \<or> counter_get c ''partials'' \<noteq> 0)"
    by (rule counter_any_iff)
  with c show "has_changes fuel lt loads fc
        = Some (Inr (counter_get c ''hits'' \<noteq> 0 \<or> counter_get c ''misses'' \<noteq> 0 \<or> counter_get c ''partials'' \<noteq> 0))"
    by (simp add: has_changes_def)
next
  assume ab: "lt a = miss" "lt b = hit"
  then show s: "change_summary 2 lt loads
          (new_FileComparison (Some \<lparr>rf_lines = [CList [a], CList [b]], eof = 3\<rparr>)
             (Some \<lparr>rf_lines = [CList [b], CList [a]], eof = 3\<rparr>) None [] False None)
          = Some (Inr [(''misses'', 0), (''hits'', 0)])"
    by (simp add: change_summary_def calculated_changes_and_lines_def new_FileComparison_def
        dict_truthy_def fc_segments_arg_def file_eof_def fc_visitors_def traverse_defs numeral_2_eq_2
        on_fst_def on_snd_def create_change_summary_visitor_def create_line_comparison_visitor_def
        diff_prefixed_def get_lines_def get_line_def update_summary_def counter_add_def counter_get_def)
  then show "has_changes 2 lt loads
          (new_FileComparison (Some \<lparr>rf_lines = [CList [a], CList [b]], eof = 3\<rparr>)
             (Some \<lparr>rf_lines = [CList [b], CList [a]], eof = 3\<rparr>) None [] False None)
          = Some (Inr False)"
    by (simp add: has_changes_def counter_any_def)
  from ab show "create_change_summary_visitor lt loads (Some \<lparr>rf_lines = [CList [a], CList [b]], eof = 3\<rparr>)
             (Some \<lparr>rf_lines = [CList [b], CList [a]], eof = 3\<rparr>) (Some 1, Some 1, None, False) []
          = Inr [(''misses'', - 1), (''hits'', 1)]"
    by (simp add: create_change_summary_visitor_def diff_prefixed_def get_lines_def get_line_def
        py_index_def update_summary_def counter_add_def counter_get_def)
qed

theorem C10_has_changes_witness:
  "change_summary 1 (\<lambda>n. if n = 0 then miss else if n = 1 then hit else partial) (\<lambda>s. Inl JSONDecodeError)
     (new_FileComparison (Some \<lparr>rf_lines = [CList [1 :: int]], eof = 2\<rparr>)
        (Some \<lparr>rf_lines = [CList [0]], eof = 2\<rparr>) None [] False None)
     = Some (Inr [(''hits'', - 1), (''misses'', 1)])
   \<and> has_changes 1 (\<lambda>n. if n = 0 then miss else if n = 1 then hit else partial) (\<lambda>s. Inl JSONDecodeError)
     (new_FileComparison (Some \<lparr>rf_lines = [CList [1 :: int]], eof = 2\<rparr>)
        (Some \<lparr>rf_lines = [CList [0]], eof = 2\<rparr>) None [] False None)
     = Some (Inr True)"
proof -
  have s: "change_summary 1 (\<lambda>n. if n = 0 then miss else if n = 1 then hit else partial) (\<lambda>s. Inl JSONDecodeError)
     (new_FileComparison (Some \<lparr>rf_lines = [CList [1 :: int]], eof = 2\<rparr>)
        (Some \<lparr>rf_lines = [CList [0]], eof = 2\<rparr>) None [] False None)
     = Some (Inr [(''hits'', - 1), (''misses'', 1)])"
    by (simp add: change_summary_def calculated_changes_and_lines_def new_FileComparison_def
        dict_truthy_def fc_segments_arg_def file_eof_def fc_visitors_def traverse_defs
        on_fst_def on_snd_def create_change_summary_visitor_def create_line_comparison_visitor_def
        diff_prefixed_def get_lines_def get_line_def update_summary_def counter_add_def counter_get_def)
  from C10_has_changes [THEN conjunct1, rule_format, OF s] s show ?thesis
    by (simp add: counter_get_def)
qed

section \<open>Truncation of large diffs\<close>






section \<open>Traversals without segments\<close>

lemma no_segments_step:
  assumes "segments tm = []" "src tm = []"
  shows "apply_step visitors tm v =
     rbind (run_visitors visitors tm None v) (\<lambda>v'.
       Inr (tm\<lparr>head_ln := head_ln tm + 1, base_ln := base_ln tm + 1\<rparr>, v'))"
  using assms by (simp add: traverse_defs)

text \<open>
  Without segments and source both cursors advance in every iteration, so the loop
  ends, by returning or by raising, once both have reached their end-of-file offsets.
\<close>

lemma no_segments_terminates:
  assumes "segments tm = []" "src tm = []"
    and "nat (max (head_file_eof tm - head_ln tm) (base_file_eof tm - base_ln tm)) \<le> n"
  shows "\<exists>r. tm_apply n visitors tm v = Some r"
  using assms
proof (induction n arbitrary: tm v)
  case 0
  then show ?case by (simp add: traverse_finished_def)
next
  case (Suc n)
  show ?case
  proof (cases "traverse_finished tm")
    case True
    then show ?thesis by simp
  next
    case False
    show ?thesis
    proof (cases "run_visitors visitors tm None v")
      case (Inl e)
      with False Suc.prems show ?thesis by (simp add: no_segments_step)
    next
      case (Inr v')
      let ?tm' = "tm\<lparr>head_ln := head_ln tm + 1, base_ln := base_ln tm + 1\<rparr>"
      have "nat (max (head_file_eof ?tm' - head_ln ?tm') (base_file_eof ?tm' - base_ln ?tm')) \<le> n"
        using Suc.prems(3) by simp
      with Suc.IH [of ?tm' v'] Suc.prems(1,2) obtain r where "tm_apply n visitors ?tm' v' = Some r"
        by auto
      with False Inr Suc.prems show ?thesis by (simp add: no_segments_step)
    qed
  qed
qed

lemma get_line_no_file [simp]: "get_line loads None ln = Inr None"
  by (simp add: get_line_def)

text \<open>A call without a line value leaves the list of line comparisons as it is.\<close>

lemma fc_visitors_no_value:
  "run_visitors (fc_visitors lt loads fc) tm None (s, ls) = Inr v' \<Longrightarrow> snd v' = ls"
  by (auto simp: fc_visitors_def on_fst_def on_snd_def create_line_comparison_visitor_def
      is_added_def is_removed_def rbind_def split: sum.splits)

lemma fc_visitors_no_value_no_file:
  assumes "base_file fc = None \<or> head_file fc = None"
    and "run_visitors (fc_visitors lt loads fc) tm None (s, ls) = Inr v'"
  shows "fst v' = s"
  using assms
  by (auto simp: fc_visitors_def on_fst_def on_snd_def create_line_comparison_visitor_def
      create_change_summary_visitor_def diff_prefixed_def get_lines_def
      is_added_def is_removed_def rbind_def split: sum.splits option.splits)

lemma no_segments_lines:
  assumes "segments tm = []" "src tm = []"
    and "tm_apply n (fc_visitors lt loads fc) tm (s, ls) = Some (Inr (tm', v'))"
  shows "snd v' = ls"
  using assms
proof (induction n arbitrary: tm s)
  case 0
  then show ?case by (auto split: if_splits)
next
  case (Suc n)
  show ?case
  proof (cases "traverse_finished tm")
    case True
    with Suc.prems show ?thesis by auto
  next
    case False
    with Suc.prems obtain v1 where v1: "run_visitors (fc_visitors lt loads fc) tm None (s, ls) = Inr v1"
      and rest: "tm_apply n (fc_visitors lt loads fc) (tm\<lparr>head_ln := head_ln tm + 1, base_ln := base_ln tm + 1\<rparr>) v1
                   = Some (Inr (tm', v'))"
      by (auto simp: no_segments_step rbind_def split: sum.splits)
    from v1 have "snd v1 = ls" by (rule fc_visitors_no_value)
    then have "v1 = (fst v1, ls)" by (cases v1) simp
    with rest Suc.IH [of "tm\<lparr>head_ln := head_ln tm + 1, base_ln := base_ln tm + 1\<rparr>" "fst v1"] Suc.prems(1,2)
    show ?thesis by simp
  qed
qed

lemma no_segments_summary:
  assumes "segments tm = []" "src tm = []" "base_file fc = None \<or> head_file fc = None"
    and "tm_apply n (fc_visitors lt loads fc) tm (s, ls) = Some (Inr (tm', v'))"
  shows "fst v' = s"
  using assms
proof (induction n arbitrary: tm ls)
  case 0
  then show ?case by (auto split: if_splits)
next
  case (Suc n)
  show ?case
  proof (cases "traverse_finished tm")
    case True
    with Suc.prems show ?thesis by auto
  next
    case False
    with Suc.prems obtain v1 where v1: "run_visitors (fc_visitors lt loads fc) tm None (s, ls) = Inr v1"
      and rest: "tm_apply n (fc_visitors lt loads fc) (tm\<lparr>head_ln := head_ln tm + 1, base_ln := base_ln tm + 1\<rparr>) v1
                   = Some (Inr (tm', v'))"
      by (auto simp: no_segments_step rbind_def split: sum.splits)
    from Suc.prems(3) v1 have "fst v1 = s" by (rule fc_visitors_no_value_no_file)
    then have "v1 = (s, snd v1)" by (cases v1) simp
    with rest Suc.IH [of "tm\<lparr>head_ln := head_ln tm + 1, base_ln := base_ln tm + 1\<rparr>" "snd v1"] Suc.prems(1,2,3)
    show ?thesis by simp
  qed
qed

section \<open>File comparisons without diff and source\<close>

lemma no_diff_no_src_calculated:
  assumes "fc = new_FileComparison bf hf None [] bypass search"
  shows "calculated_changes_and_lines fuel lt loads fc =
     (if search = Some False then Some (Inr ([], []))
      else (case tm_apply fuel (fc_visitors lt loads fc)
                   \<lparr>head_file_eof = file_eof hf, base_file_eof = file_eof bf, segments = [],
                    src = [], base_ln = 1, head_ln = 1\<rparr> ([], []) of
              None \<Rightarrow> None
            | Some (Inl e) \<Rightarrow> Some (Inl e)
            | Some (Inr (tm', v)) \<Rightarrow> Some (Inr v)))"
  using assms
  by (simp add: calculated_changes_and_lines_def new_FileComparison_def dict_truthy_def
      fc_segments_arg_def tm_init_def)

text \<open>One call of the change-summary visitor adds the line's delta to every bucket.\<close>

lemma change_summary_visitor_delta:
  assumes "create_change_summary_visitor lt loads bf hf (Some n, Some n, None, d) s = Inr s'"
  shows "counter_get s' k = counter_get s k + bucket_delta lt loads bf hf n k"
proof (cases "get_lines loads bf hf (Some n) (Some n)")
  case (Inl e)
  with assms show ?thesis
    by (simp add: create_change_summary_visitor_def diff_prefixed_def)
next
  case (Inr p)
  obtain bl hl where p: "p = (bl, hl)" by (cases p)
  show ?thesis
  proof (cases bl)
    case None
    with assms Inr p show ?thesis
      by (simp add: create_change_summary_visitor_def diff_prefixed_def bucket_delta_def class_change_def)
  next
    case (Some bline)
    note bl = this
    show ?thesis
    proof (cases hl)
      case None
      with assms Inr p bl show ?thesis
        by (simp add: create_change_summary_visitor_def diff_prefixed_def bucket_delta_def
            class_change_def split: list.splits)
    next
      case (Some hline)
      from assms Inr p bl Some obtain b brest h hrest where
        lines: "bline = b # brest" "hline = h # hrest"
        by (cases bline; cases hline)
          (simp_all add: create_change_summary_visitor_def diff_prefixed_def py_index_def)
      show ?thesis
      proof (cases "lt b = lt h")
        case True
        with assms Inr p bl Some lines show ?thesis
          by (simp add: create_change_summary_visitor_def diff_prefixed_def py_index_def
              bucket_delta_def class_change_def)
      next
        case False
        with assms Inr p bl Some lines
        have "s' = counter_add (counter_add s (coverage_type_map (lt b)) (- 1)) (coverage_type_map (lt h)) 1"
          by (simp add: create_change_summary_visitor_def diff_prefixed_def py_index_def update_summary_def)
        with False Inr p bl Some lines show ?thesis
          by (simp add: counter_get_add bucket_delta_def class_change_def)
      qed
    qed
  qed
qed

lemma fc_visitors_no_value_summary:
  assumes "segments tm = []"
    and "run_visitors (fc_visitors lt loads fc) tm None (s, ls) = Inr v'"
  shows "create_change_summary_visitor lt loads (base_file fc) (head_file fc)
           (Some (base_ln tm), Some (head_ln tm), None, False) s = Inr (fst v')"
  using assms
  by (auto simp: fc_visitors_def on_fst_def on_snd_def create_line_comparison_visitor_def
      traversing_diff_def is_added_def is_removed_def rbind_def split: sum.splits)

lemma no_segments_summary_delta:
  assumes "segments tm = []" "src tm = []" "base_ln tm = head_ln tm"
    and "tm_apply fuel (fc_visitors lt loads fc) tm (s, ls) = Some (Inr (tm', v'))"
  shows "counter_get (fst v') k = counter_get s k
           + sum_list (map (\<lambda>n. bucket_delta lt loads (base_file fc) (head_file fc) n k)
               [head_ln tm .. max (head_file_eof tm) (base_file_eof tm) - 1])"
  using assms
proof (induction fuel arbitrary: tm s ls)
  case 0
  then show ?case by (auto simp: traverse_finished_def split: if_splits)
next
  case (Suc fuel)
  show ?case
  proof (cases "traverse_finished tm")
    case True
    with Suc.prems show ?thesis by (auto simp: traverse_finished_def)
  next
    case False
    let ?tm1 = "tm\<lparr>head_ln := head_ln tm + 1, base_ln := base_ln tm + 1\<rparr>"
    from False Suc.prems obtain v1 where v1: "run_visitors (fc_visitors lt loads fc) tm None (s, ls) = Inr v1"
      and rest: "tm_apply fuel (fc_visitors lt loads fc) ?tm1 v1 = Some (Inr (tm', v'))"
      by (auto simp: no_segments_step rbind_def split: sum.splits)
    from fc_visitors_no_value_summary [OF Suc.prems(1) v1] Suc.prems(3)
    have "counter_get (fst v1) k = counter_get s k
        + bucket_delta lt loads (base_file fc) (head_file fc) (head_ln tm) k"
      by (simp add: change_summary_visitor_delta)
    moreover have "counter_get (fst v') k = counter_get (fst v1) k
           + sum_list (map (\<lambda>n. bucket_delta lt loads (base_file fc) (head_file fc) n k)
               [head_ln ?tm1 .. max (head_file_eof ?tm1) (base_file_eof ?tm1) - 1])"
      using Suc.IH [of ?tm1 "fst v1" "snd v1"] rest Suc.prems(1,2,3) by simp
    moreover have "head_ln tm \<le> max (head_file_eof tm) (base_file_eof tm) - 1"
      using False Suc.prems(1,2,3) by (auto simp: traverse_finished_def)
    then have "[head_ln tm .. max (head_file_eof tm) (base_file_eof tm) - 1]
        = head_ln tm # [head_ln tm + 1 .. max (head_file_eof tm) (base_file_eof tm) - 1]"
      by (rule upto_rec1)
    ultimately show ?thesis by simp
  qed
qed

text \<open>Without legacy string cells no lookup raises, and the traversal returns.\<close>

lemma py_index_in_set: "py_index xs i = Inr x \<Longrightarrow> x \<in> set xs"
  by (auto simp: py_index_def split: if_splits)

lemma get_line_list_cells:
  assumes "\<And>rf s. f = Some rf \<Longrightarrow> CStr s \<notin> set (rf_lines rf)"
  shows "get_line loads f ln = Inr None \<or> (\<exists>c r. get_line loads f ln = Inr (Some (c # r)))"
proof (cases f)
  case None
  then show ?thesis by simp
next
  case (Some rf)
  show ?thesis
  proof (cases ln)
    case None
    with Some show ?thesis by (simp add: get_line_def)
  next
    case (Some n)
    show ?thesis
    proof (cases "py_index (rf_lines rf) (n - 1)")
      case (Inl e)
      then have "e = IndexError" by (auto simp: py_index_def split: if_splits)
      with Inl Some \<open>f = Some rf\<close> show ?thesis by (simp add: get_line_def)
    next
      case (Inr cell)
      then have "cell \<in> set (rf_lines rf)" by (rule py_index_in_set)
      with assms \<open>f = Some rf\<close> have "\<And>s. cell \<noteq> CStr s" by blast
      with Inr Some \<open>f = Some rf\<close> show ?thesis
        by (cases cell) (auto simp: get_line_def neq_Nil_conv)
    qed
  qed
qed

lemma change_summary_visitor_list_cells:
  assumes "\<And>rf s. bf = Some rf \<Longrightarrow> CStr s \<notin> set (rf_lines rf)"
    and "\<And>rf s. hf = Some rf \<Longrightarrow> CStr s \<notin> set (rf_lines rf)"
  shows "\<exists>s'. create_change_summary_visitor lt loads bf hf (b, h, None, d) s = Inr s'"
  using get_line_list_cells [of bf loads b, OF assms(1)] get_line_list_cells [of hf loads h, OF assms(2)]
  by (auto simp: create_change_summary_visitor_def diff_prefixed_def get_lines_def py_index_def
      update_summary_def)

lemma no_segments_returns:
  assumes "segments tm = []" "src tm = []"
    and "nat (max (head_file_eof tm - head_ln tm) (base_file_eof tm - base_ln tm)) \<le> n"
    and "\<And>rf s. base_file fc = Some rf \<Longrightarrow> CStr s \<notin> set (rf_lines rf)"
    and "\<And>rf s. head_file fc = Some rf \<Longrightarrow> CStr s \<notin> set (rf_lines rf)"
  shows "\<exists>tm' v'. tm_apply n (fc_visitors lt loads fc) tm v = Some (Inr (tm', v'))"
  using assms(1-3)
proof (induction n arbitrary: tm v)
  case 0
  then show ?case by (simp add: traverse_finished_def)
next
  case (Suc n)
  show ?case
  proof (cases "traverse_finished tm")
    case True
    then show ?thesis by simp
  next
    case False
    let ?tm1 = "tm\<lparr>head_ln := head_ln tm + 1, base_ln := base_ln tm + 1\<rparr>"
    obtain s' where "create_change_summary_visitor lt loads (base_file fc) (head_file fc)
        (Some (base_ln tm), Some (head_ln tm), None, False) (fst v) = Inr s'"
      using change_summary_visitor_list_cells [OF assms(4,5)] by blast
    then have v1: "run_visitors (fc_visitors lt loads fc) tm None v = Inr (s', snd v)"
      using Suc.prems(1)
      by (simp add: fc_visitors_def on_fst_def on_snd_def create_line_comparison_visitor_def
          traversing_diff_def is_added_def is_removed_def)
    have "nat (max (head_file_eof ?tm1 - head_ln ?tm1) (base_file_eof ?tm1 - base_ln ?tm1)) \<le> n"
      using Suc.prems(3) by simp
    with Suc.IH [of ?tm1 "(s', snd v)"] Suc.prems(1,2)
    obtain tm' v' where "tm_apply n (fc_visitors lt loads fc) ?tm1 (s', snd v) = Some (Inr (tm', v'))"
      by auto
    with False v1 Suc.prems show ?thesis by (simp add: no_segments_step)
  qed
qed

text \<open>
  Claim C7, as the code has it. For a file comparison built with no diff data and no
  source: the traversal ends within max(head eof, base eof) iterations; whenever
  \<^verbatim>\<open>lines\<close> returns, it is the empty list; the change summary is empty (every bucket
  reads 0) when \<^verbatim>\<open>should_search_for_changes\<close> is False, where nothing is traversed,
  and whenever it returns for a comparison whose base or head report file is absent.
  When \<^verbatim>\<open>should_search_for_changes\<close> is not False the lines 1 to
  max(head eof, base eof) - 1 are visited, and every bucket of the change summary is
  the sum over these lines of the line's delta: plus one where the bucket is the head
  class, minus one where it is the base class, for the lines found in both report files
  with different classes. The summary is returned when no stored line is a string of
  the old format.
\<close>

theorem C7_no_diff_no_src:
  assumes fc: "fc = new_FileComparison bf hf None [] bypass search"
  shows "(\<exists>r. calculated_changes_and_lines (nat (max (file_eof hf) (file_eof bf))) lt loads fc = Some r)
       \<and> (\<forall>ls. fc_lines fuel lt loads fc = Some (Inr ls) \<longrightarrow> ls = Some [])
       \<and> (search = Some False \<longrightarrow>
            change_summary fuel lt loads fc = Some (Inr [])
          \<and> fc_lines fuel lt loads fc = Some (Inr (Some [])))
       \<and> (bf = None \<or> hf = None \<longrightarrow>
            (\<forall>c. change_summary fuel lt loads fc = Some (Inr c) \<longrightarrow> c = []))
       \<and> (\<forall>k. counter_get [] k = 0)
       \<and> (search \<noteq> Some False \<longrightarrow>
            (\<forall>c k. change_summary fuel lt loads fc = Some (Inr c) \<longrightarrow>
               counter_get c k
                 = sum_list (map (\<lambda>n. bucket_delta lt loads bf hf n k)
                     [1 .. max (file_eof hf) (file_eof bf) - 1])))
       \<and> ((\<forall>rf s. bf = Some rf \<longrightarrow> CStr s \<notin> set (rf_lines rf)) \<longrightarrow>
          (\<forall>rf s. hf = Some rf \<longrightarrow> CStr s \<notin> set (rf_lines rf)) \<longrightarrow>
            (\<exists>c. change_summary (nat (max (file_eof hf) (file_eof bf))) lt loads fc = Some (Inr c)))"
proof (intro conjI allI impI)
  let ?tm = "\<lparr>head_file_eof = file_eof hf, base_file_eof = file_eof bf, segments = [],
              src = [], base_ln = 1, head_ln = 1\<rparr>"
  have "nat (max (head_file_eof ?tm - head_ln ?tm) (base_file_eof ?tm - base_ln ?tm))
          \<le> nat (max (file_eof hf) (file_eof bf))"
    by simp
  then obtain r where
    "tm_apply (nat (max (file_eof hf) (file_eof bf))) (fc_visitors lt loads fc) ?tm ([], []) = Some r"
    using no_segments_terminates [of ?tm "nat (max (file_eof hf) (file_eof bf))" "fc_visitors lt loads fc" "([], [])"]
    by auto
  then show "\<exists>r. calculated_changes_and_lines (nat (max (file_eof hf) (file_eof bf))) lt loads fc = Some r"
    by (auto simp: no_diff_no_src_calculated [OF fc] split: sum.splits)
next
  fix ls
  assume l: "fc_lines fuel lt loads fc = Some (Inr ls)"
  have len: "total_diff_length fc = 0" "fc_src fc = []"
    using fc by (simp_all add: new_FileComparison_def)
  with l obtain c xs where calc: "calculated_changes_and_lines fuel lt loads fc = Some (Inr (c, xs))"
    and ls: "ls = Some xs"
    by (auto simp: fc_lines_def MAX_DIFF_SIZE_def split: option.splits sum.splits)
  have "xs = []"
  proof (cases "search = Some False")
    case True
    with calc show ?thesis by (simp add: no_diff_no_src_calculated [OF fc])
  next
    case False
    with calc obtain tm' where
      "tm_apply fuel (fc_visitors lt loads fc)
         \<lparr>head_file_eof = file_eof hf, base_file_eof = file_eof bf, segments = [],
          src = [], base_ln = 1, head_ln = 1\<rparr> ([], []) = Some (Inr (tm', (c, xs)))"
      by (auto simp: no_diff_no_src_calculated [OF fc] split: option.splits sum.splits)
    from no_segments_lines [OF _ _ this] show ?thesis by simp
  qed
  with ls show "ls = Some []" by simp
next
  assume "search = Some False"
  then have calc: "calculated_changes_and_lines fuel lt loads fc = Some (Inr ([], []))"
    by (simp add: no_diff_no_src_calculated [OF fc])
  then show "change_summary fuel lt loads fc = Some (Inr [])"
    by (simp add: change_summary_def)
  have "total_diff_length fc = 0" using fc by (simp add: new_FileComparison_def)
  with calc show "fc_lines fuel lt loads fc = Some (Inr (Some []))"
    by (simp add: fc_lines_def MAX_DIFF_SIZE_def)
next
  fix k
  show "counter_get [] k = 0" by (simp add: counter_get_def)
next
  fix c
  assume absent: "bf = None \<or> hf = None" and c: "change_summary fuel lt loads fc = Some (Inr c)"
  from c obtain xs where calc: "calculated_changes_and_lines fuel lt loads fc = Some (Inr (c, xs))"
    by (auto simp: change_summary_def split: option.splits sum.splits)
  have files: "base_file fc = None \<or> head_file fc = None"
    using absent fc by (simp add: new_FileComparison_def)
  show "c = []"
  proof (cases "search = Some False")
    case True
    with calc show ?thesis by (simp add: no_diff_no_src_calculated [OF fc])
  next
    case False
    with calc obtain tm' where
      "tm_apply fuel (fc_visitors lt loads fc)
         \<lparr>head_file_eof = file_eof hf, base_file_eof = file_eof bf, segments = [],
          src = [], base_ln = 1, head_ln = 1\<rparr> ([], []) = Some (Inr (tm', (c, xs)))"
      by (auto simp: no_diff_no_src_calculated [OF fc] split: option.splits sum.splits)
    from no_segments_summary [OF _ _ files this] show ?thesis by simp
  qed
next
  fix c k
  assume search: "search \<noteq> Some False" and c: "change_summary fuel lt loads fc = Some (Inr c)"
  let ?tm = "\<lparr>head_file_eof = file_eof hf, base_file_eof = file_eof bf, segments = [],
              src = [], base_ln = 1, head_ln = 1\<rparr>"
  from c obtain xs where "calculated_changes_and_lines fuel lt loads fc = Some (Inr (c, xs))"
    by (auto simp: change_summary_def split: option.splits sum.splits)
  with search obtain tm' where
    t: "tm_apply fuel (fc_visitors lt loads fc) ?tm ([], []) = Some (Inr (tm', (c, xs)))"
    by (auto simp: no_diff_no_src_calculated [OF fc] split: option.splits sum.splits)
  have files: "base_file fc = bf" "head_file fc = hf"
    using fc by (simp_all add: new_FileComparison_def)
  from no_segments_summary_delta [OF _ _ _ t, of k] files
  show "counter_get c k
      = sum_list (map (\<lambda>n. bucket_delta lt loads bf hf n k) [1 .. max (file_eof hf) (file_eof bf) - 1])"
    by (simp add: counter_get_def)
next
  assume b: "\<forall>rf s. bf = Some rf \<longrightarrow> CStr s \<notin> set (rf_lines rf)"
    and h: "\<forall>rf s. hf = Some rf \<longrightarrow> CStr s \<notin> set (rf_lines rf)"
  let ?tm = "\<lparr>head_file_eof = file_eof hf, base_file_eof = file_eof bf, segments = [],
              src = [], base_ln = 1, head_ln = 1\<rparr>"
  have files: "base_file fc = bf" "head_file fc = hf"
    using fc by (simp_all add: new_FileComparison_def)
  have "nat (max (head_file_eof ?tm - head_ln ?tm) (base_file_eof ?tm - base_ln ?tm))
          \<le> nat (max (file_eof hf) (file_eof bf))"
    by simp
  from no_segments_returns [of ?tm "nat (max (file_eof hf) (file_eof bf))" fc lt loads "([], [])", OF _ _ this]
    b h files
  obtain tm' v' where
    "tm_apply (nat (max (file_eof hf) (file_eof bf))) (fc_visitors lt loads fc) ?tm ([], [])
       = Some (Inr (tm', v'))"
    by auto
  then show "\<exists>c. change_summary (nat (max (file_eof hf) (file_eof bf))) lt loads fc = Some (Inr c)"
    by (auto simp: change_summary_def no_diff_no_src_calculated [OF fc])
qed

theorem C7_no_diff_no_src_witness:
  "\<exists>c. change_summary 4 (\<lambda>n. if n = 0 then miss else hit) (\<lambda>s. Inl JSONDecodeError)
          (new_FileComparison (Some \<lparr>rf_lines = [CList [1 :: int], CNone, CList [0]], eof = 4\<rparr>)
             (Some \<lparr>rf_lines = [CList [0], CList [1], CList [0]], eof = 4\<rparr>) None [] False None)
          = Some (Inr c)
      \<and> counter_get c ''hits'' = - 1 \<and> counter_get c ''misses'' = 1 \<and> counter_get c ''partials'' = 0"
proof -
  let ?lt = "\<lambda>n :: int. if n = 0 then miss else hit"
  let ?loads = "\<lambda>s :: string. Inl JSONDecodeError :: error + int list"
  let ?bf = "Some \<lparr>rf_lines = [CList [1 :: int], CNone, CList [0]], eof = 4\<rparr>"
  let ?hf = "Some \<lparr>rf_lines = [CList [0 :: int], CList [1], CList [0]], eof = 4\<rparr>"
  let ?fc = "new_FileComparison ?bf ?hf None [] False None"
  note inst = C7_no_diff_no_src [of ?fc ?bf ?hf False None ?lt ?loads 4, OF refl]
  have d: "bucket_delta ?lt ?loads ?bf ?hf 1 k = (if k = ''misses'' then 1 else 0) - (if k = ''hits'' then 1 else 0)"
    "bucket_delta ?lt ?loads ?bf ?hf 2 k = 0"
    "bucket_delta ?lt ?loads ?bf ?hf 3 k = 0"
    for k
    by (auto simp: bucket_delta_def class_change_def get_lines_def get_line_def py_index_def)
  from inst obtain c where c: "change_summary 4 ?lt ?loads ?fc = Some (Inr c)"
    by (auto simp: file_eof_def)
  with inst have "counter_get c k = sum_list (map (\<lambda>n. bucket_delta ?lt ?loads ?bf ?hf n k) [1 .. 3])" for k
    by (simp add: file_eof_def)
  then have "counter_get c k = (if k = ''misses'' then 1 else 0) - (if k = ''hits'' then 1 else 0)" for k
    by (simp add: d upto_rec1)
  with c show ?thesis by auto
qed

text \<open>
  The claim as stated fails on the code: with the default
  \<^verbatim>\<open>should_search_for_changes\<close> (None) the file is traversed, and a file whose first
  line is hit in the base report and miss in the head report has the change summary
  hits: -1, misses: +1, which is not all zero.
\<close>

theorem C7_no_diff_no_src_counterexample:
  "change_summary 2 (\<lambda>n. if n = 0 then miss else hit) (\<lambda>s. Inl JSONDecodeError)
     (new_FileComparison (Some \<lparr>rf_lines = [CList [1 :: int], CList [1]], eof = 3\<rparr>)
        (Some \<lparr>rf_lines = [CList [0], CList [1]], eof = 3\<rparr>) None [] False None)
     = Some (Inr [(''hits'', - 1), (''misses'', 1)])
   \<and> counter_get [(''hits'', - 1), (''misses'', 1)] ''hits'' = - 1
   \<and> counter_get [(''hits'', - 1), (''misses'', 1)] ''misses'' = 1"
  by (simp add: change_summary_def calculated_changes_and_lines_def new_FileComparison_def
      dict_truthy_def fc_segments_arg_def file_eof_def fc_visitors_def traverse_defs numeral_2_eq_2
      on_fst_def on_snd_def create_change_summary_visitor_def create_line_comparison_visitor_def
      diff_prefixed_def get_lines_def get_line_def update_summary_def counter_add_def counter_get_def)

section \<open>A traversal that does not end\<close>

text \<open>
  A source line that starts with "-" and lies outside every segment is taken for a
  removed line: only the base cursor advances, the head cursor stays on the line, and
  \<^verbatim>\<open>traverse_finished\<close> waits for the head cursor to pass the end of the source.
\<close>

lemma dash_source_line_loops:
  assumes "segments tm = []" "src tm = [''-x'']" "head_ln tm = 1"
    and "base_file fc = None" "head_file fc = None"
  shows "tm_apply n (fc_visitors lt loads fc) tm v = None"
  using assms(1-3)
proof (induction n arbitrary: tm v)
  case 0
  then show ?case by (simp add: traverse_finished_def)
next
  case (Suc n)
  have nf: "\<not> traverse_finished tm"
    using Suc.prems by (simp add: traverse_finished_def)
  have step: "apply_step (fc_visitors lt loads fc) tm v
      = Inr (tm\<lparr>base_ln := base_ln tm + 1\<rparr>,
             (fst v, snd v @ [new_LineComparison None None (Some (base_ln tm)) None ''-x'' False]))"
    using Suc.prems assms(4,5)
    by (simp add: traverse_defs fc_visitors_def on_fst_def on_snd_def
        create_change_summary_visitor_def create_line_comparison_visitor_def diff_prefixed_def
        get_lines_def)
  have "tm_apply n (fc_visitors lt loads fc) (tm\<lparr>base_ln := base_ln tm + 1\<rparr>)
          (fst v, snd v @ [new_LineComparison None None (Some (base_ln tm)) None ''-x'' False]) = None"
    using Suc.prems by (intro Suc.IH) simp_all
  with nf step show ?case by simp
qed

text \<open>
  Claim C4 fails on the code at the file comparison with no report files, no diff and
  the one-line source "-x": the traversal has no segments (an empty list is sorted),
  a finite source and finite EOF offsets, and it does not end, whatever the fuel.
\<close>

theorem C4_traversal_does_not_end:
  "calculated_changes_and_lines fuel lt loads (new_FileComparison None None None [''-x''] False None) = None
   \<and> tm_init 0 0 [] [''-x'']
       = Inr \<lparr>head_file_eof = 0, base_file_eof = 0, segments = [], src = [''-x''], base_ln = 1, head_ln = 1\<rparr>
   \<and> apply_step [record_calls]
        \<lparr>head_file_eof = 0, base_file_eof = 0, segments = [], src = [''-x''], base_ln = b, head_ln = 1\<rparr> []
       = Inr (\<lparr>head_file_eof = 0, base_file_eof = 0, segments = [], src = [''-x''], base_ln = b + 1, head_ln = 1\<rparr>,
              [(Some b, None, Some ''-x'', False)])"
proof (intro conjI)
  let ?fc = "new_FileComparison None None None [''-x''] False None"
  have "tm_apply fuel (fc_visitors lt loads ?fc)
          \<lparr>head_file_eof = 0, base_file_eof = 0, segments = [], src = [''-x''], base_ln = 1, head_ln = 1\<rparr>
          ([], []) = None"
    by (rule dash_source_line_loops) (simp_all add: new_FileComparison_def)
  then show "calculated_changes_and_lines fuel lt loads ?fc = None"
    by (simp add: calculated_changes_and_lines_def new_FileComparison_def dict_truthy_def
        fc_segments_arg_def file_eof_def tm_init_def)
next
  show "tm_init 0 0 [] [''-x'']
       = Inr \<lparr>head_file_eof = 0, base_file_eof = 0, segments = [], src = [''-x''], base_ln = 1, head_ln = 1\<rparr>"
    by (simp add: tm_init_def)
next
  show "apply_step [record_calls]
        \<lparr>head_file_eof = 0, base_file_eof = 0, segments = [], src = [''-x''], base_ln = b, head_ln = 1\<rparr> []
       = Inr (\<lparr>head_file_eof = 0, base_file_eof = 0, segments = [], src = [''-x''], base_ln = b + 1, head_ln = 1\<rparr>,
              [(Some b, None, Some ''-x'', False)])"
    by (simp add: traverse_defs record_calls_def)
qed

theorem C4_traversal_does_not_end_witness:
  "calculated_changes_and_lines 1000 (\<lambda>n :: int. if n = 0 then miss else hit) (\<lambda>s. Inl JSONDecodeError)
     (new_FileComparison None None None [''-x''] False None) = None"
  using C4_traversal_does_not_end [of 1000 "\<lambda>n :: int. if n = 0 then miss else hit" "\<lambda>s. Inl JSONDecodeError" 0]
  by (rule conjunct1)

section \<open>Report-line lookup\<close>

text \<open>
  Claim C5 holds for line numbers from 1 on: the lookup is \<^verbatim>\<open>None\<close> without a file,
  without a line number and past the end of the array, and otherwise the stored cell
  (decoded when it is a string; \<^verbatim>\<open>None\<close> when it is falsy). It fails on the code
  for the line number 0 and the negative numbers down to \<open>1 - len\<close>: the index
  \<open>ln - 1\<close> is negative there, the array read counts it from the end, and the lookup
  returns the record of another line instead of \<^verbatim>\<open>None\<close>. The traverser passes
  the line number 0: for the header [0, 0, 1, 3] its base cursor starts at 0, and the
  line comparison of the context line gets the last record of the base file.
\<close>

theorem C5_get_line:
  "get_line loads None ln = Inr None
   \<and> get_line loads rf None = Inr None
   \<and> (1 \<le> n \<longrightarrow> n > int (length cells) \<longrightarrow>
        get_line loads (Some \<lparr>rf_lines = cells, eof = e\<rparr>) (Some n) = Inr None)
   \<and> (1 \<le> n \<longrightarrow> n \<le> int (length cells) \<longrightarrow>
        get_line loads (Some \<lparr>rf_lines = cells, eof = e\<rparr>) (Some n)
          = (case cells ! nat (n - 1) of
               CNone \<Rightarrow> Inr None
             | CList l \<Rightarrow> Inr (if l = [] then None else Some l)
             | CStr s \<Rightarrow> if s = [] then Inr None else rbind (loads s) (\<lambda>l. Inr (Some l))))
   \<and> get_line loads (Some \<lparr>rf_lines = [CList [a], CList [b]], eof = 3\<rparr>) (Some 0) = Inr (Some [b])
   \<and> get_line loads (Some \<lparr>rf_lines = [CList [a], CList [b]], eof = 3\<rparr>) (Some (- 1)) = Inr (Some [a])
   \<and> get_line loads (Some \<lparr>rf_lines = [CList [a], CList [b]], eof = 3\<rparr>) (Some (- 2)) = Inr None
   \<and> (\<exists>tm' ls.
         tm_apply 5 [create_line_comparison_visitor loads (Some \<lparr>rf_lines = [CList [a], CList [b]], eof = 3\<rparr>) None]
           \<lparr>head_file_eof = 0, base_file_eof = 3,
            segments = [\<lparr>header = [HInt 0, HInt 0, HInt 1, HInt 3], lines = [''+a'', ''+b'', '' c'']\<rparr>],
            src = [], base_ln = 0, head_ln = 1\<rparr> []
           = Some (Inr (tm', ls))
       \<and> map lc_base_ln ls = [None, None, Some 0]
       \<and> map base_line ls = [None, None, Some [b]])"
proof (intro conjI impI)
  show "\<exists>tm' ls.
         tm_apply 5 [create_line_comparison_visitor loads (Some \<lparr>rf_lines = [CList [a], CList [b]], eof = 3\<rparr>) None]
           \<lparr>head_file_eof = 0, base_file_eof = 3,
            segments = [\<lparr>header = [HInt 0, HInt 0, HInt 1, HInt 3], lines = [''+a'', ''+b'', '' c'']\<rparr>],
            src = [], base_ln = 0, head_ln = 1\<rparr> []
           = Some (Inr (tm', ls))
       \<and> map lc_base_ln ls = [None, None, Some 0]
       \<and> map base_line ls = [None, None, Some [b]]"
    by (simp add: traverse_defs eval_nat_numeral create_line_comparison_visitor_def get_lines_def
        get_line_def new_LineComparison_def)
qed (auto simp: get_line_def py_index_def split: option.splits cell.splits)

theorem C5_get_line_witness:
  "get_line (\<lambda>s. Inl JSONDecodeError) (Some \<lparr>rf_lines = [CList [1 :: int, 5], CNone], eof = 3\<rparr>) (Some 1)
     = Inr (Some [1, 5])
   \<and> get_line (\<lambda>s. Inl JSONDecodeError) (Some \<lparr>rf_lines = [CList [1 :: int, 5], CNone], eof = 3\<rparr>) (Some 2)
     = Inr None
   \<and> get_line (\<lambda>s. Inl JSONDecodeError) (Some \<lparr>rf_lines = [CList [1 :: int, 5], CNone], eof = 3\<rparr>) (Some 3)
     = Inr None"
proof -
  have a: "get_line (\<lambda>s. Inl JSONDecodeError) (Some \<lparr>rf_lines = [CList [1 :: int, 5], CNone], eof = 3\<rparr>) (Some 1)
     = Inr (Some [1, 5])"
    using C5_get_line [of "\<lambda>s. Inl JSONDecodeError" "Some 1" None 1 "[CList [1 :: int, 5], CNone]" 3]
    by simp
  have b: "get_line (\<lambda>s. Inl JSONDecodeError) (Some \<lparr>rf_lines = [CList [1 :: int, 5], CNone], eof = 3\<rparr>) (Some 2)
     = Inr None"
    using C5_get_line [of "\<lambda>s. Inl JSONDecodeError" "Some 1" None 2 "[CList [1 :: int, 5], CNone]" 3]
    by simp
  have c: "get_line (\<lambda>s. Inl JSONDecodeError) (Some \<lparr>rf_lines = [CList [1 :: int, 5], CNone], eof = 3\<rparr>) (Some 3)
     = Inr None"
    using C5_get_line [of "\<lambda>s. Inl JSONDecodeError" "Some 1" None 3 "[CList [1 :: int, 5], CNone]" 3]
    by simp
  from a b c show ?thesis by simp
qed

section \<open>upload_commits\<close>

text \<open>
  Claim C8 fails on the code: \<^verbatim>\<open>upload_commits\<close> returns every stored commit of the
  base commit's repository whose id is in the commit list, deleted or not; a commit
  marked deleted with a listed id is returned.
\<close>

theorem C8_upload_commits_keeps_deleted:
  "upload_commits store ids repo
     = filter (\<lambda>c. commitid c \<in> set ids \<and> repository c = repo) store
   \<and> upload_commits [\<lparr>commitid = ''abc'', repository = 7, deleted = True\<rparr>] [''abc''] 7
     = [\<lparr>commitid = ''abc'', repository = 7, deleted = True\<rparr>]"
  by (simp add: upload_commits_def qs_filter_def Let_def)

section \<open>The cache of files with changes\<close>

text \<open>
  Claim C9 fails on the code where the redis client reports that the server cannot be
  reached: \<^verbatim>\<open>redis.get\<close> then raises \<^verbatim>\<open>redis.exceptions.ConnectionError\<close>, the
  clause \<^verbatim>\<open>except OSError\<close> does not catch it, and \<^verbatim>\<open>_files_with_changes\<close> and
  \<^verbatim>\<open>PullRequestComparison.get_file_comparison\<close> raise it. Only an OSError of the read
  is caught: the property then returns \<^verbatim>\<open>None\<close>, the file comparison is returned with
  \<^verbatim>\<open>should_search_for_changes\<close> set to \<^verbatim>\<open>None\<close>, and that comparison computes
  its changes and lines by the traversal of the file.
\<close>

theorem C9_cache_connection_error:
  "files_with_changes (Inl RedisConnectionError) loads_names = Inl RedisConnectionError
   \<and> pr_get_file_comparison (Inl RedisConnectionError) loads_names file_name fc = Inl RedisConnectionError
   \<and> (e \<noteq> OSError \<longrightarrow> files_with_changes (Inl e) loads_names = Inl e)
   \<and> files_with_changes (Inl OSError) loads_names = Inr None
   \<and> pr_get_file_comparison (Inl OSError) loads_names file_name fc
       = Inr (fc\<lparr>should_search_for_changes := None\<rparr>)
   \<and> calculated_changes_and_lines fuel lt loads (fc\<lparr>should_search_for_changes := None\<rparr>)
       = (case tm_init (file_eof (head_file fc)) (file_eof (base_file fc)) (fc_segments_arg fc) (fc_src fc) of
            Inl e \<Rightarrow> Some (Inl e)
          | Inr tm \<Rightarrow>
              (case tm_apply fuel (fc_visitors lt loads fc) tm ([], []) of
                 None \<Rightarrow> None
               | Some (Inl e) \<Rightarrow> Some (Inl e)
               | Some (Inr (tm', v)) \<Rightarrow> Some (Inr v)))"
proof (intro conjI impI)
  show r: "files_with_changes (Inl RedisConnectionError) loads_names = Inl RedisConnectionError"
    by (simp add: files_with_changes_def)
  then show "pr_get_file_comparison (Inl RedisConnectionError) loads_names file_name fc
      = Inl RedisConnectionError"
    by (simp add: pr_get_file_comparison_def)
next
  assume "e \<noteq> OSError"
  then show "files_with_changes (Inl e) loads_names = Inl e"
    by (simp add: files_with_changes_def)
next
  show f: "files_with_changes (Inl OSError) loads_names = Inr None"
    by (simp add: files_with_changes_def)
  then show "pr_get_file_comparison (Inl OSError) loads_names file_name fc
       = Inr (fc\<lparr>should_search_for_changes := None\<rparr>)"
    by (simp add: pr_get_file_comparison_def)
  have v: "fc_visitors lt loads (fc\<lparr>should_search_for_changes := None\<rparr>) = fc_visitors lt loads fc"
    by (simp add: fc_visitors_def)
  have a: "fc_segments_arg (fc\<lparr>should_search_for_changes := None\<rparr>) = fc_segments_arg fc"
    by (simp add: fc_segments_arg_def)
  show "calculated_changes_and_lines fuel lt loads (fc\<lparr>should_search_for_changes := None\<rparr>)
       = (case tm_init (file_eof (head_file fc)) (file_eof (base_file fc)) (fc_segments_arg fc) (fc_src fc) of
            Inl e \<Rightarrow> Some (Inl e)
          | Inr tm \<Rightarrow>
              (case tm_apply fuel (fc_visitors lt loads fc) tm ([], []) of
                 None \<Rightarrow> None
               | Some (Inl e) \<Rightarrow> Some (Inl e)
               | Some (Inr (tm', v)) \<Rightarrow> Some (Inr v)))"
    unfolding calculated_changes_and_lines_def v a by simp
qed

theorem C9_cache_connection_error_witness:
  "pr_get_file_comparison (Inl RedisConnectionError) (\<lambda>s. Inr None) ''a.py''
     (new_FileComparison (Some \<lparr>rf_lines = [CList [1 :: int]], eof = 2\<rparr>)
        (Some \<lparr>rf_lines = [CList [0]], eof = 2\<rparr>) None [] False None)
   = Inl RedisConnectionError
   \<and> files_with_changes (Inl JSONDecodeError) (\<lambda>s. Inr None) = Inl JSONDecodeError
   \<and> pr_get_file_comparison (Inl OSError) (\<lambda>s. Inr None) ''a.py''
     (new_FileComparison (Some \<lparr>rf_lines = [CList [1 :: int]], eof = 2\<rparr>)
        (Some \<lparr>rf_lines = [CList [0]], eof = 2\<rparr>) None [] False (Some False))
   = Inr (new_FileComparison (Some \<lparr>rf_lines = [CList [1 :: int]], eof = 2\<rparr>)
        (Some \<lparr>rf_lines = [CList [0]], eof = 2\<rparr>) None [] False None)"
proof -
  let ?fc = "new_FileComparison (Some \<lparr>rf_lines = [CList [1 :: int]], eof = 2\<rparr>)
        (Some \<lparr>rf_lines = [CList [0]], eof = 2\<rparr>) None [] False"
  have u: "(?fc (Some False))\<lparr>should_search_for_changes := None\<rparr> = ?fc None"
    by (simp add: new_FileComparison_def)
  from C9_cache_connection_error [of "\<lambda>s. Inr None" "''a.py''" "?fc None" JSONDecodeError]
    C9_cache_connection_error [of "\<lambda>s. Inr None" "''a.py''" "?fc (Some False)" JSONDecodeError]
  show ?thesis by (simp add: u)
qed

section \<open>The segment grouper\<close>

text \<open>
  The loop of \<^verbatim>\<open>Segment.segments\<close> is compared with the grouping in the spec's words:
  the groups it builds are the clusters for the distance 6, and the slice it takes for
  a group is the padded, clamped window.
\<close>

lemma gaps_within_snoc:
  "g \<noteq> [] \<Longrightarrow> gaps_within d g \<Longrightarrow> n - last g \<le> d \<Longrightarrow> gaps_within d (g @ [n])"
  by (induction d g rule: gaps_within.induct) auto

lemma gaps_between_last_group:
  "gaps_between d (gs @ [g]) \<Longrightarrow> g \<noteq> [] \<Longrightarrow> g' \<noteq> [] \<Longrightarrow> hd g' = hd g \<Longrightarrow> gaps_between d (gs @ [g'])"
proof (induction gs)
  case Nil
  then show ?case by simp
next
  case (Cons a gs)
  then show ?case by (cases gs) auto
qed

lemma gaps_between_snoc:
  "gaps_between d (gs @ [g]) \<Longrightarrow> g \<noteq> [] \<Longrightarrow> h \<noteq> [] \<Longrightarrow> hd h - last g > d
     \<Longrightarrow> gaps_between d (gs @ [g, h])"
proof (induction gs)
  case Nil
  then show ?case by simp
next
  case (Cons a gs)
  then show ?case by (cases gs) auto
qed

lemma append_to_last_snoc [simp]: "append_to_last (gs @ [g]) n = Inr (gs @ [g @ [n]])"
  by (simp add: append_to_last_def)

lemma group_loop_clusters:
  assumes "g \<noteq> []" "spec_clusters line_distance xs (gs @ [g])"
  shows "\<exists>groups. group_loop ns (gs @ [g]) (Some (last g)) = Inr groups
           \<and> spec_clusters line_distance (xs @ ns) groups"
  using assms
proof (induction ns arbitrary: gs g xs)
  case Nil
  then show ?case by simp
next
  case (Cons n ns)
  show ?case
  proof (cases "n - last g \<le> line_distance")
    case True
    have "spec_clusters line_distance (xs @ [n]) (gs @ [g @ [n]])"
      using Cons.prems True
      by (auto simp: spec_clusters_def gaps_within_snoc intro: gaps_between_last_group)
    from Cons.IH [OF _ this] True show ?thesis by simp
  next
    case False
    have "spec_clusters line_distance (xs @ [n]) ((gs @ [g]) @ [[n]])"
      using Cons.prems False
      by (auto simp: spec_clusters_def intro: gaps_between_snoc)
    from Cons.IH [OF _ this] False show ?thesis by simp
  qed
qed

lemma segmented_lines_clusters:
  "\<exists>groups. segmented_lines numbers = Inr groups \<and> spec_clusters line_distance numbers groups"
proof (cases numbers)
  case Nil
  then show ?thesis by (simp add: segmented_lines_def spec_clusters_def)
next
  case (Cons n ns)
  have "spec_clusters line_distance [n] ([] @ [[n]])"
    by (simp add: spec_clusters_def)
  from group_loop_clusters [OF _ this, of ns] Cons show ?thesis
    by (simp add: segmented_lines_def append_to_last_def)
qed

lemma window_is_slice:
  assumes "0 \<le> a" "- 1 \<le> b" "b < int (length xs)"
  shows "py_slice xs a (b + 1) = map (\<lambda>i. xs ! nat i) [a..b]"
proof (rule nth_equalityI)
  show len: "length (py_slice xs a (b + 1)) = length (map (\<lambda>i. xs ! nat i) [a..b])"
    using assms by (auto simp: py_slice_def slice_bound_def)
  fix k
  assume "k < length (py_slice xs a (b + 1))"
  with len have k: "a + int k \<le> b" by simp
  with assms show "py_slice xs a (b + 1) ! k = map (\<lambda>i. xs ! nat i) [a..b] ! k"
    by (simp add: py_slice_def slice_bound_def nat_add_distrib)
qed

lemma segment_of_group_window:
  assumes "g \<noteq> []" "0 \<le> last g"
  shows "segment_of_group ls g = Inr (Segment (spec_window ls g))"
proof -
  have first: "py_index g 0 = Inr (hd g)"
    using assms(1) by (simp add: py_index_def hd_conv_nth)
  have final: "py_index g (- 1) = Inr (last g)"
    using assms(1) by (cases g rule: rev_cases) (auto simp: py_index_def nth_append)
  have "py_slice ls (max (hd g - 3) 0) (min (last g + 3) (int (length ls) - 1) + 1)
      = map (\<lambda>i. ls ! nat i) [max (hd g - 3) 0 .. min (last g + 3) (int (length ls) - 1)]"
    using assms(2) by (intro window_is_slice) auto
  with first final show ?thesis
    by (simp add: segment_of_group_def padding_lines_def spec_window_def max.commute min.commute)
qed

lemma segments_loop_windows:
  assumes "\<forall>g \<in> set groups. g \<noteq> [] \<and> 0 \<le> last g"
  shows "segments_loop ls groups = Inr (map (\<lambda>g. Segment (spec_window ls g)) groups)"
  using assms by (induction groups) (simp_all add: segment_of_group_window)

lemma line_numbers_set:
  "set (line_numbers lt ls) = {int i | i. i < length ls \<and> line_of_interest lt (ls ! i)}"
  by (auto simp: line_numbers_def in_set_enumerate_eq image_iff)

lemma line_numbers_ascending: "sorted_wrt (<) (line_numbers lt ls)"
proof -
  have "sorted_wrt (\<lambda>x y. fst x < fst y) (enumerate 0 ls)"
    unfolding sorted_wrt_map [of "(<)" fst, symmetric] by simp
  then have "sorted_wrt (\<lambda>x y. fst x < fst y)
      (filter (\<lambda>(idx, line). line_of_interest lt line) (enumerate 0 ls))"
    by (rule sorted_wrt_filter)
  then have "sorted_wrt (<) (map fst (filter (\<lambda>(idx, line). line_of_interest lt line) (enumerate 0 ls)))"
    by (simp add: sorted_wrt_map)
  then have "sorted_wrt (<) (map int (map fst (filter (\<lambda>(idx, line). line_of_interest lt line) (enumerate 0 ls))))"
    by (simp add: sorted_wrt_map)
  moreover have "map int (map fst (filter (\<lambda>(idx, line). line_of_interest lt line) (enumerate 0 ls)))
      = line_numbers lt ls"
    by (simp add: line_numbers_def case_prod_unfold comp_def)
  ultimately show ?thesis by simp
qed

text \<open>
  Claim C6. The indices that \<^verbatim>\<open>Segment.segments\<close> collects are, in ascending order,
  the indices of the lines whose base and head coverage differ or that are added or
  removed. The loop cuts them into groups: inside a group successive indices are at
  most 6 apart, between the end of a group and the start of the next there are more
  than 6. Each group gives one segment, in order: the lines from 3 before its first
  index to 3 after its last index, clamped to 0 and \<open>len - 1\<close>. With lines of
  interest at exactly the indices 5 and 40 there are two segments, the lines 2 to 8
  and the lines 37 to \<open>min (len - 1) 43\<close>.
\<close>

theorem C6_segment_grouping:
  "(\<exists>groups. segmented_lines (line_numbers lt ls) = Inr groups
       \<and> spec_clusters 6 (line_numbers lt ls) groups
       \<and> Segment_segments lt (Some ls) = Inr (map (\<lambda>g. Segment (spec_window ls g)) groups))
   \<and> set (line_numbers lt ls) = {int i | i. i < length ls \<and> line_of_interest lt (ls ! i)}
   \<and> sorted_wrt (<) (line_numbers lt ls)
   \<and> (line_of_interest lt l \<longleftrightarrow> fst (coverage lt l) \<noteq> snd (coverage lt l) \<or> added l \<or> removed l)
   \<and> (line_numbers lt ls = [5, 40] \<longrightarrow>
        Segment_segments lt (Some ls)
          = Inr [Segment (map (\<lambda>i. ls ! nat i) [2..8]),
                 Segment (map (\<lambda>i. ls ! nat i) [37..min (int (length ls) - 1) 43])])"
proof (intro conjI impI)
  obtain groups where g: "segmented_lines (line_numbers lt ls) = Inr groups"
    and c: "spec_clusters line_distance (line_numbers lt ls) groups"
    using segmented_lines_clusters by blast
  have "\<forall>g \<in> set groups. g \<noteq> [] \<and> 0 \<le> last g"
  proof
    fix g
    assume m: "g \<in> set groups"
    with c have ne: "g \<noteq> []" by (auto simp: spec_clusters_def list_all_iff)
    then have "last g \<in> set g" by simp
    with m have "last g \<in> set (concat groups)" by auto
    with c have "last g \<in> set (line_numbers lt ls)" by (simp add: spec_clusters_def)
    then have "0 \<le> last g" by (auto simp: line_numbers_set)
    with ne show "g \<noteq> [] \<and> 0 \<le> last g" by simp
  qed
  then have "segments_loop ls groups = Inr (map (\<lambda>g. Segment (spec_window ls g)) groups)"
    by (rule segments_loop_windows)
  with g have "Segment_segments lt (Some ls) = Inr (map (\<lambda>g. Segment (spec_window ls g)) groups)"
    by (simp add: Segment_segments_def)
  with g c show "\<exists>groups. segmented_lines (line_numbers lt ls) = Inr groups
       \<and> spec_clusters 6 (line_numbers lt ls) groups
       \<and> Segment_segments lt (Some ls) = Inr (map (\<lambda>g. Segment (spec_window ls g)) groups)"
    by (auto simp: line_distance_def)
next
  show "set (line_numbers lt ls) = {int i | i. i < length ls \<and> line_of_interest lt (ls ! i)}"
    by (rule line_numbers_set)
next
  show "sorted_wrt (<) (line_numbers lt ls)"
    by (rule line_numbers_ascending)
next
  show "line_of_interest lt l \<longleftrightarrow> fst (coverage lt l) \<noteq> snd (coverage lt l) \<or> added l \<or> removed l"
    by (simp add: line_of_interest_def)
next
  assume n: "line_numbers lt ls = [5, 40]"
  then have "40 \<in> set (line_numbers lt ls)" by simp
  then have len: "40 < int (length ls)" by (auto simp: line_numbers_set)
  have "segmented_lines [5, 40] = Inr [[5], [40]]"
    by (simp add: segmented_lines_def append_to_last_def line_distance_def)
  moreover have "segments_loop ls [[5], [40]] = Inr (map (\<lambda>g. Segment (spec_window ls g)) [[5], [40]])"
    by (rule segments_loop_windows) simp
  ultimately have "Segment_segments lt (Some ls) = Inr [Segment (spec_window ls [5]), Segment (spec_window ls [40])]"
    using n by (simp add: Segment_segments_def)
  moreover have "spec_window ls [5] = map (\<lambda>i. ls ! nat i) [2..8]"
    using len by (simp add: spec_window_def)
  moreover have "spec_window ls [40] = map (\<lambda>i. ls ! nat i) [37..min (int (length ls) - 1) 43]"
    by (simp add: spec_window_def)
  ultimately show "Segment_segments lt (Some ls)
          = Inr [Segment (map (\<lambda>i. ls ! nat i) [2..8]),
                 Segment (map (\<lambda>i. ls ! nat i) [37..min (int (length ls) - 1) 43])]"
    by simp
qed

theorem C6_segment_grouping_witness:
  "line_numbers (\<lambda>n :: int. if n = 0 then miss else hit)
     (map (\<lambda>i. new_LineComparison (Some [if i = 5 \<or> i = 40 then 0 else 1]) (Some [1])
                 (Some (int i + 1)) (Some (int i + 1)) ''x'' False) [0..<42]) = [5, 40]
   \<and> (case Segment_segments (\<lambda>n :: int. if n = 0 then miss else hit)
        (Some (map (\<lambda>i. new_LineComparison (Some [if i = 5 \<or> i = 40 then 0 else 1]) (Some [1])
                 (Some (int i + 1)) (Some (int i + 1)) ''x'' False) [0..<42])) of
         Inl e \<Rightarrow> []
       | Inr segs \<Rightarrow> map (\<lambda>s. case s of Segment l \<Rightarrow> map lc_head_ln l) segs)
     = [[Some 3, Some 4, Some 5, Some 6, Some 7, Some 8, Some 9],
        [Some 38, Some 39, Some 40, Some 41, Some 42]]"
proof -
  let ?lt = "\<lambda>n :: int. if n = 0 then miss else hit"
  let ?ls = "map (\<lambda>i. new_LineComparison (Some [if i = 5 \<or> i = 40 then 0 else 1 :: int]) (Some [1])
                 (Some (int i + 1)) (Some (int i + 1)) ''x'' False) [0..<42]"
  have n: "line_numbers ?lt ?ls = [5, 40]"
    by code_simp
  with C6_segment_grouping [of ?lt ?ls]
  have "Segment_segments ?lt (Some ?ls)
          = Inr [Segment (map (\<lambda>i. ?ls ! nat i) [2..8]),
                 Segment (map (\<lambda>i. ?ls ! nat i) [37..min (int (length ?ls) - 1) 43])]"
    by blast
  with n show ?thesis
    by (simp add: new_LineComparison_def)
qed

end
